theory Spec2Isabelle
  imports Main
begin

section \<open>Python strings\<close>

text \<open>
  A Python \<open>str\<close> is a sequence of Unicode code points, so a character is a natural
  number and a string a list of them. ASCII literals of the source are written with
  \<open>asc\<close>. Exceptions of the source are values of \<open>error\<close>; a function that can
  raise returns \<open>error + 'a\<close>.
\<close>

type_synonym pychar = nat
type_synonym pystr = "nat list"

datatype error = TypeError

definition asc :: "string \<Rightarrow> pystr" where
  "asc s = map of_char s"

definition ebind :: "error + 'a \<Rightarrow> ('a \<Rightarrow> error + 'b) \<Rightarrow> error + 'b" where
  "ebind m f = (case m of Inl e \<Rightarrow> Inl e | Inr x \<Rightarrow> f x)"

text \<open>\<open>str.isspace\<close>, which is also the class \<open>\s\<close> of \<open>re\<close> on \<open>str\<close> patterns.\<close>

definition isspace :: "pychar \<Rightarrow> bool" where
  "isspace c \<longleftrightarrow>
     (9 \<le> c \<and> c \<le> 13) \<or> (28 \<le> c \<and> c \<le> 32) \<or> c = 133 \<or> c = 160 \<or> c = 5760 \<or>
     (8192 \<le> c \<and> c \<le> 8202) \<or> c = 8232 \<or> c = 8233 \<or> c = 8239 \<or> c = 8287 \<or> c = 12288"

text \<open>
  The class \<open>\d\<close> of \<open>re\<close> on \<open>str\<close> patterns: the decimal digits of Unicode
  (category Nd), which \<open>int()\<close> accepts as well. Every range starts at a digit zero and
  holds whole runs of ten.
\<close>

definition nd_ranges :: "(nat \<times> nat) list" where
  "nd_ranges = [(48, 57), (1632, 1641), (1776, 1785), (1984, 1993), (2406, 2415),
     (2534, 2543), (2662, 2671), (2790, 2799), (2918, 2927), (3046, 3055), (3174, 3183),
     (3302, 3311), (3430, 3439), (3558, 3567), (3664, 3673), (3792, 3801), (3872, 3881),
     (4160, 4169), (4240, 4249), (6112, 6121), (6160, 6169), (6470, 6479), (6608, 6617),
     (6784, 6793), (6800, 6809), (6992, 7001), (7088, 7097), (7232, 7241), (7248, 7257),
     (42528, 42537), (43216, 43225), (43264, 43273), (43472, 43481), (43504, 43513),
     (43600, 43609), (44016, 44025), (65296, 65305), (66720, 66729), (68912, 68921),
     (69734, 69743), (69872, 69881), (69942, 69951), (70096, 70105), (70384, 70393),
     (70736, 70745), (70864, 70873), (71248, 71257), (71360, 71369), (71472, 71481),
     (71904, 71913), (72016, 72025), (72784, 72793), (73040, 73049), (73120, 73129),
     (92768, 92777), (92864, 92873), (93008, 93017), (120782, 120831), (123200, 123209),
     (123632, 123641), (125264, 125273), (130032, 130041)]"

definition isdigit :: "pychar \<Rightarrow> bool" where
  "isdigit c = list_ex (\<lambda>(a, b). a \<le> c \<and> c \<le> b) nd_ranges"

definition digit_val :: "pychar \<Rightarrow> nat" where
  "digit_val c = (case filter (\<lambda>(a, b). a \<le> c \<and> c \<le> b) nd_ranges of
                    [] \<Rightarrow> 0 | (a, b) # _ \<Rightarrow> (c - a) mod 10)"

text \<open>\<open>int(s)\<close> on a non-empty run of digits, and \<open>str(n)\<close> of a natural number.\<close>

definition int_of_digits :: "pystr \<Rightarrow> nat" where
  "int_of_digits ds = foldl (\<lambda>acc d. 10 * acc + digit_val d) 0 ds"

function str_nat :: "nat \<Rightarrow> pystr" where
  "str_nat n = (if n < 10 then [48 + n] else str_nat (n div 10) @ [48 + n mod 10])"
  by pat_completeness auto
termination
  by (relation "measure id") auto

declare str_nat.simps [simp del]

definition lstrip :: "pystr \<Rightarrow> pystr" where
  "lstrip s = dropWhile isspace s"

definition rstrip :: "pystr \<Rightarrow> pystr" where
  "rstrip s = rev (dropWhile isspace (rev s))"

definition strip :: "pystr \<Rightarrow> pystr" where
  "strip s = lstrip (rstrip s)"

definition startswith :: "pystr \<Rightarrow> pystr \<Rightarrow> bool" where
  "startswith s p \<longleftrightarrow> take (length p) s = p"

definition endswith :: "pystr \<Rightarrow> pystr \<Rightarrow> bool" where
  "endswith s p \<longleftrightarrow> length p \<le> length s \<and> drop (length s - length p) s = p"

text \<open>\<open>sub in s\<close>.\<close>

fun contains :: "pystr \<Rightarrow> pystr \<Rightarrow> bool" where
  "contains [] sub = (sub = [])"
| "contains (c # cs) sub = (startswith (c # cs) sub \<or> contains cs sub)"

text \<open>\<open>s.split(sep)\<close> for a separator of one character: never the empty list.\<close>

fun split_on :: "pychar \<Rightarrow> pystr \<Rightarrow> pystr list" where
  "split_on sep [] = [[]]"
| "split_on sep (c # cs) =
     (if c = sep then [] # split_on sep cs
      else (case split_on sep cs of [] \<Rightarrow> [[c]] | l # ls \<Rightarrow> (c # l) # ls))"

text \<open>\<open>sep.join(xs)\<close>.\<close>

fun join :: "pystr \<Rightarrow> pystr list \<Rightarrow> pystr" where
  "join sep [] = []"
| "join sep [x] = x"
| "join sep (x # y # ys) = x @ sep @ join sep (y # ys)"

text \<open>\<open>s.replace(old, new)\<close> for a non-empty \<open>old\<close>: leftmost matches, not overlapping.\<close>

fun replace :: "pystr \<Rightarrow> pystr \<Rightarrow> pystr \<Rightarrow> pystr" where
  "replace old new [] = []"
| "replace old new (c # cs) =
     (if startswith (c # cs) old then new @ replace old new (drop (length old - 1) cs)
      else c # replace old new cs)"

text \<open>\<open>html.escape(s)\<close> with its default \<open>quote=True\<close>.\<close>

definition escape_char :: "pychar \<Rightarrow> pystr" where
  "escape_char c =
     (if c = 38 then asc ''&amp;''
      else if c = 60 then asc ''&lt;''
      else if c = 62 then asc ''&gt;''
      else if c = 34 then asc ''&quot;''
      else if c = 39 then asc ''&#x27;''
      else [c])"

definition html_escape :: "pystr \<Rightarrow> pystr" where
  "html_escape s = concat (map escape_char s)"

section \<open>Regular-expression substitution\<close>

text \<open>
  \<open>re.sub(pattern, repl, text)\<close> for a pattern that cannot match the empty string.
  The pattern is given as a function that tries a match at the current position: it
  sees the character before the position (for a lookbehind) and the rest of the text,
  and returns the match data with the number of characters matched. \<open>repl\<close> is the
  callback; when it raises, the substitution raises. The scan goes left to right and
  resumes after each match, as \<open>re.sub\<close> does.
\<close>

fun re_sub :: "(pychar option \<Rightarrow> pystr \<Rightarrow> ('m \<times> nat) option) \<Rightarrow> ('m \<Rightarrow> error + pystr) \<Rightarrow>
    pychar option \<Rightarrow> pystr \<Rightarrow> error + pystr" where
  "re_sub pat repl prev [] = Inr []"
| "re_sub pat repl prev (x # xs) =
     (case pat prev (x # xs) of
        None \<Rightarrow>
          (case re_sub pat repl (Some x) xs of Inl e \<Rightarrow> Inl e | Inr r \<Rightarrow> Inr (x # r))
      | Some (m, n) \<Rightarrow>
          (case repl m of
             Inl e \<Rightarrow> Inl e
           | Inr c \<Rightarrow>
               (case re_sub pat repl (Some ((x # xs) ! (n - 1))) (drop (n - 1) xs) of
                  Inl e \<Rightarrow> Inl e
                | Inr r \<Rightarrow> Inr (c @ r))))"

section \<open>The Inline Cleaner\<close>

text \<open>
  \<open>(.*?)dd\<close> from the current position, for a delimiter character \<open>d\<close>: the lazy
  group takes the fewest characters (none of them a newline) that are followed by
  \<open>dd\<close>. The result is the group.
\<close>

fun lazy_until2 :: "pychar \<Rightarrow> pystr \<Rightarrow> pystr option" where
  "lazy_until2 d (x # y # r) =
     (if x = d \<and> y = d then Some []
      else if x = 10 then None
      else map_option (Cons x) (lazy_until2 d (y # r)))"
| "lazy_until2 d r = None"

text \<open>\<open>dd(.*?)dd\<close> at the current position: the group and the length of the match.\<close>

definition pair_at :: "pychar \<Rightarrow> pystr \<Rightarrow> (pystr \<times> nat) option" where
  "pair_at d s =
     (case s of
        a # b # r \<Rightarrow>
          (if a = d \<and> b = d
           then (case lazy_until2 d r of None \<Rightarrow> None | Some g \<Rightarrow> Some (g, length g + 4))
           else None)
      | _ \<Rightarrow> None)"

text \<open>
  The bold pattern \<^verbatim>\<open>\*\*(.*?)\*\*|__(.*?)__\<close>. The match data are the two groups;
  the group of the alternative that did not take part is \<open>None\<close>.
\<close>

definition bold_pat :: "pychar option \<Rightarrow> pystr \<Rightarrow> ((pystr option \<times> pystr option) \<times> nat) option" where
  "bold_pat prev s =
     (case pair_at 42 s of
        Some (g, n) \<Rightarrow> Some ((Some g, None), n)
      | None \<Rightarrow>
          (case pair_at 95 s of
             Some (g, n) \<Rightarrow> Some ((None, Some g), n)
           | None \<Rightarrow> None))"

text \<open>
  \<open>match.group(1) or match.group(2)\<close>: the first operand when it is truthy (a non-empty
  string), the second otherwise.
\<close>

definition py_or :: "pystr option \<Rightarrow> pystr option \<Rightarrow> pystr option" where
  "py_or a b = (case a of None \<Rightarrow> b | Some g \<Rightarrow> (if g \<noteq> [] then Some g else b))"

text \<open>
  \<open>replace_bold\<close> and \<open>replace_italic\<close>: both take \<open>len(content)\<close> for the entry they
  append to \<open>formatting_info\<close>, which raises \<open>TypeError\<close> when \<open>content\<close> is \<open>None\<close>.
  The list \<open>formatting_info\<close> is local and never read, so only the exception is kept.
\<close>

definition replace_bold :: "pystr option \<times> pystr option \<Rightarrow> error + pystr" where
  "replace_bold m = (case py_or (fst m) (snd m) of None \<Rightarrow> Inl TypeError | Some content \<Rightarrow> Inr content)"

definition replace_italic :: "pystr option \<times> pystr option \<Rightarrow> error + pystr" where
  "replace_italic m = (case py_or (fst m) (snd m) of None \<Rightarrow> Inl TypeError | Some content \<Rightarrow> Inr content)"

text \<open>
  \<open>.*?[^d\s]d(?!d)\<close> from the current position: the fewest characters (no newline)
  followed by a character that is neither \<open>d\<close> nor white space, then \<open>d\<close>, then no
  further \<open>d\<close>. The result is what \<open>.*?[^d\s]\<close> matched.
\<close>

fun italic_tail :: "pychar \<Rightarrow> pystr \<Rightarrow> pystr option" where
  "italic_tail d (x # y # r) =
     (if x \<noteq> d \<and> \<not> isspace x \<and> y = d \<and> (case r of [] \<Rightarrow> True | z # _ \<Rightarrow> z \<noteq> d) then Some [x]
      else if x = 10 then None
      else map_option (Cons x) (italic_tail d (y # r)))"
| "italic_tail d r = None"

text \<open>
  One alternative of the italic pattern, \<open>(?<!d)d([^d\s].*?[^d\s])d(?!d)\<close>: the
  group and the length of the match.
\<close>

definition italic_alt :: "pychar \<Rightarrow> pychar option \<Rightarrow> pystr \<Rightarrow> (pystr \<times> nat) option" where
  "italic_alt d prev s =
     (if prev = Some d then None
      else (case s of
              a # b # r \<Rightarrow>
                (if a = d \<and> b \<noteq> d \<and> \<not> isspace b
                 then (case italic_tail d r of None \<Rightarrow> None | Some g \<Rightarrow> Some (b # g, length g + 3))
                 else None)
            | _ \<Rightarrow> None))"

text \<open>
  The italic pattern
  \<^verbatim>\<open>(?<!\*)\*([^*\s].*?[^*\s])\*(?!\*)|(?<!_)_([^_\s].*?[^_\s])_(?!_)\<close>.
\<close>

definition italic_pat :: "pychar option \<Rightarrow> pystr \<Rightarrow> ((pystr option \<times> pystr option) \<times> nat) option" where
  "italic_pat prev s =
     (case italic_alt 42 prev s of
        Some (g, n) \<Rightarrow> Some ((Some g, None), n)
      | None \<Rightarrow>
          (case italic_alt 95 prev s of
             Some (g, n) \<Rightarrow> Some ((None, Some g), n)
           | None \<Rightarrow> None))"

text \<open>The strikethrough pattern \<^verbatim>\<open>~~(.*?)~~\<close>; \<open>replace_strike\<close> returns the group.\<close>

definition strike_pat :: "pychar option \<Rightarrow> pystr \<Rightarrow> (pystr \<times> nat) option" where
  "strike_pat prev s = pair_at 126 s"

definition replace_strike :: "pystr \<Rightarrow> error + pystr" where
  "replace_strike content = Inr content"

text \<open>
  The inline code pattern \<^verbatim>\<open>`([^`]+)`\<close>: a backtick, at least one character that is
  not a backtick (newlines included), a backtick.
\<close>

definition code_pat :: "pychar option \<Rightarrow> pystr \<Rightarrow> (pystr \<times> nat) option" where
  "code_pat prev s =
     (case s of
        [] \<Rightarrow> None
      | a # r \<Rightarrow>
          (let g = takeWhile (\<lambda>c. c \<noteq> 96) r in
           if a = 96 \<and> g \<noteq> [] \<and> startswith (drop (length g) r) [96]
           then Some (g, length g + 2) else None))"

definition replace_code :: "pystr \<Rightarrow> error + pystr" where
  "replace_code content = Inr content"

text \<open>
  The link pattern \<^verbatim>\<open>\[([^\]]+)\]\(([^)]+)\)\<close>; \<open>replace_links\<close> returns
  \<open>text (url)\<close>.
\<close>

definition link_pat :: "pychar option \<Rightarrow> pystr \<Rightarrow> ((pystr \<times> pystr) \<times> nat) option" where
  "link_pat prev s =
     (case s of
        [] \<Rightarrow> None
      | a # r \<Rightarrow>
          (let text_part = takeWhile (\<lambda>c. c \<noteq> 93) r;
               r1 = drop (length text_part) r;
               r2 = drop 2 r1;
               url_part = takeWhile (\<lambda>c. c \<noteq> 41) r2
           in if a = 91 \<and> text_part \<noteq> [] \<and> startswith r1 [93, 40] \<and> url_part \<noteq> [] \<and>
                 startswith (drop (length url_part) r2) [41]
              then Some ((text_part, url_part), length text_part + length url_part + 4)
              else None))"

definition replace_links :: "pystr \<times> pystr \<Rightarrow> error + pystr" where
  "replace_links m = Inr (fst m @ asc '' ('' @ snd m @ asc '')'')"

text \<open>\<^verbatim>\<open>re.sub(r"\\d", "d", text)\<close> for \<open>d\<close> an asterisk or an underscore.\<close>

fun unescape :: "pychar \<Rightarrow> pystr \<Rightarrow> pystr" where
  "unescape d (a # b # r) =
     (if a = 92 \<and> b = d then d # unescape d r else a # unescape d (b # r))"
| "unescape d r = r"

text \<open>\<^verbatim>\<open>re.sub(r"\s+", " ", text)\<close>.\<close>

function collapse_ws :: "pystr \<Rightarrow> pystr" where
  "collapse_ws [] = []"
| "collapse_ws (c # cs) =
     (if isspace c then 32 # collapse_ws (dropWhile isspace cs) else c # collapse_ws cs)"
  by pat_completeness auto
termination
  by (relation "measure length") (auto simp: less_Suc_eq_le length_dropWhile_le)

definition clean_inline_markdown :: "pystr \<Rightarrow> error + pystr" where
  "clean_inline_markdown text0 =
     ebind (re_sub bold_pat replace_bold None text0) (\<lambda>text1.
     ebind (re_sub italic_pat replace_italic None text1) (\<lambda>text2.
     ebind (re_sub strike_pat replace_strike None text2) (\<lambda>text3.
     ebind (re_sub code_pat replace_code None text3) (\<lambda>text4.
     ebind (re_sub link_pat replace_links None text4) (\<lambda>text5.
     Inr (strip (collapse_ws (unescape 95 (unescape 42
            (filter (\<lambda>c. c \<noteq> 60 \<and> c \<noteq> 62) text5))))))))))"

section \<open>The Artifact Sanitizer\<close>

text \<open>
  \<^verbatim>\<open>re.sub(r"^Thought for \d+ seconds\n", "", text)\<close>: without \<open>re.MULTILINE\<close> the
  anchor holds at the start of the text only, so at most one match is removed.
\<close>

definition remove_thought :: "pystr \<Rightarrow> pystr" where
  "remove_thought t =
     (let r = drop 12 t;
          ds = takeWhile isdigit r;
          r2 = drop (length ds) r
      in if startswith t (asc ''Thought for '') \<and> ds \<noteq> [] \<and> startswith r2 (asc '' seconds'' @ [10])
         then drop 9 r2 else t)"

text \<open>
  \<^verbatim>\<open>re.search(r"^#+\s*.*$", text, re.MULTILINE)\<close>. With \<open>re.MULTILINE\<close> the anchor
  \<open>^\<close> holds at the start of the text and after every newline. At such a position the
  pattern matches as soon as the character is \<open>#\<close>: \<open>\s*\<close> and \<open>.*\<close> may be empty and
  \<open>$\<close> holds where \<open>.*\<close> stops, at a newline or at the end. The flag says whether the
  position is the start of a line; the result is \<open>text[match.start():]\<close>.
\<close>

fun heading_search :: "bool \<Rightarrow> pystr \<Rightarrow> pystr option" where
  "heading_search bol [] = None"
| "heading_search bol (c # cs) =
     (if bol \<and> c = 35 then Some (c # cs) else heading_search (c = 10) cs)"

definition heading_cut :: "pystr \<Rightarrow> pystr" where
  "heading_cut t = (case heading_search True t of None \<Rightarrow> t | Some u \<Rightarrow> u)"

text \<open>
  The dictionary \<open>replacements\<close> in its insertion order. Its first key is the three
  code points U+00E2, U+2013, U+00A0 of the source file.
\<close>

definition replacements :: "(pystr \<times> pystr) list" where
  "replacements = [([226, 8211, 160], [45]), ([8209], [45]), ([8210], [45]), ([173], [45]),
     ([8211], [45]), ([8212], [45])]"

definition apply_replacements :: "pystr \<Rightarrow> pystr" where
  "apply_replacements t = foldl (\<lambda>acc (old, new). replace old new acc) t replacements"

text \<open>The substitution that deletes the code points U+200B to U+200D and U+FEFF.\<close>

definition remove_zero_width :: "pystr \<Rightarrow> pystr" where
  "remove_zero_width t = filter (\<lambda>c. \<not> (8203 \<le> c \<and> c \<le> 8205) \<and> c \<noteq> 65279) t"

definition remove_ai_artifacts :: "pystr \<Rightarrow> pystr" where
  "remove_ai_artifacts text0 =
     strip (remove_zero_width (apply_replacements (heading_cut (remove_thought (strip text0)))))"

section \<open>The Structural Parser\<close>

fun map_err :: "('a \<Rightarrow> error + 'b) \<Rightarrow> 'a list \<Rightarrow> error + 'b list" where
  "map_err f [] = Inr []"
| "map_err f (x # xs) = ebind (f x) (\<lambda>y. ebind (map_err f xs) (\<lambda>ys. Inr (y # ys)))"

definition process_table_line :: "pystr \<Rightarrow> error + pystr" where
  "process_table_line line =
     (if contains line (asc ''---'') then Inr (asc ''[TABLE_SEPARATOR]'')
      else
        (let cells = map strip (split_on 124 line);
             cells1 = (if cells \<noteq> [] \<and> hd cells = [] then tl cells else cells);
             cells2 = (if cells1 \<noteq> [] \<and> last cells1 = [] then butlast cells1 else cells1)
         in ebind (map_err clean_inline_markdown cells2) (\<lambda>clean_cells.
              Inr (asc ''[TABLE_ROW]'' @ join [124] clean_cells))))"

text \<open>
  \<^verbatim>\<open>re.match(r"^(#+)\s*(.*)", line)\<close>: the groups. \<open>\s*\<close> is greedy and may run over
  newlines; \<open>.*\<close> stops at a newline.
\<close>

definition match_heading :: "pystr \<Rightarrow> (pystr \<times> pystr) option" where
  "match_heading line =
     (let hashes = takeWhile (\<lambda>c. c = 35) line
      in if hashes = [] then None
         else Some (hashes, takeWhile (\<lambda>c. c \<noteq> 10) (dropWhile isspace (drop (length hashes) line))))"

text \<open>
  \<^verbatim>\<open>re.match(r"^[-*_]{3,}$", s)\<close>; without \<open>re.MULTILINE\<close> the anchor \<open>$\<close> holds at
  the end and before a newline that ends the string.
\<close>

definition match_rule :: "pystr \<Rightarrow> bool" where
  "match_rule s \<longleftrightarrow>
     (let body = (if s \<noteq> [] \<and> last s = 10 then butlast s else s)
      in 3 \<le> length body \<and> list_all (\<lambda>c. c = 45 \<or> c = 42 \<or> c = 95) body)"

text \<open>
  \<^verbatim>\<open>re.match(r"^(\s*)([*+-]|\d+\.)\s+(.+)", line)\<close>: the groups (indent, marker,
  content). No white space character starts a marker, so the indent is the whole
  leading white space. \<open>\s+\<close> is greedy; when it runs to the end of the line it gives
  characters back until \<open>.+\<close> finds one that is not a newline, and that character is
  then the content.
\<close>

definition match_list :: "pystr \<Rightarrow> (pystr \<times> pystr \<times> pystr) option" where
  "match_list line =
     (let indent = takeWhile isspace line;
          r = drop (length indent) line;
          digits = takeWhile isdigit r;
          marker = (case r of
                      [] \<Rightarrow> None
                    | c # cs \<Rightarrow>
                        (if c = 42 \<or> c = 43 \<or> c = 45 then Some [c]
                         else if digits \<noteq> [] \<and> startswith (drop (length digits) r) [46]
                         then Some (digits @ [46]) else None))
      in case marker of
           None \<Rightarrow> None
         | Some m \<Rightarrow>
             (let r1 = drop (length m) r;
                  ws = takeWhile isspace r1;
                  r2 = drop (length ws) r1
              in if ws = [] then None
                 else if r2 \<noteq> [] then Some (indent, m, takeWhile (\<lambda>c. c \<noteq> 10) r2)
                 else (case filter (\<lambda>c. c \<noteq> 10) (tl ws) of
                         [] \<Rightarrow> None
                       | y # ys \<Rightarrow> Some (indent, m, [last (y # ys)]))))"

text \<open>
  The function returns a string on every path, the empty string for a blank line, so
  the caller's test \<open>processed_line is not None\<close> always holds.
\<close>

definition process_markdown_line :: "pystr \<Rightarrow> error + pystr" where
  "process_markdown_line line =
     (if strip line = [] then Inr []
      else case match_heading line of
        Some (hashes, rest) \<Rightarrow>
          ebind (clean_inline_markdown (strip rest)) (\<lambda>clean_title.
            Inr (asc ''[HEADING_'' @ str_nat (length hashes) @ asc '']'' @ clean_title))
      | None \<Rightarrow>
          if match_rule (strip line) then Inr (asc ''[HORIZONTAL_RULE]'')
          else case match_list line of
            Some (indent, marker, content) \<Rightarrow>
              ebind (clean_inline_markdown content) (\<lambda>clean_content.
                Inr (asc ''[LIST_'' @ (if endswith marker [46] then asc ''NUMBERED'' else asc ''BULLET'') @
                     asc ''_'' @ str_nat (length indent div 2) @ asc '']'' @ clean_content))
          | None \<Rightarrow>
              if startswith line [62] then
                ebind (clean_inline_markdown (dropWhile isspace (drop 1 line))) (\<lambda>clean_quote.
                  Inr (asc ''[BLOCKQUOTE]'' @ clean_quote))
              else if contains line [124] \<and> startswith (strip line) [124] then process_table_line line
              else ebind (clean_inline_markdown line) (\<lambda>clean_line.
                     Inr (asc ''[PARAGRAPH]'' @ clean_line)))"

record parse_state =
  structured_lines :: "pystr list"
  p_in_code_block :: bool
  code_block_content :: "pystr list"

text \<open>The lines of a closed code block, appended when the buffer is not empty.\<close>

definition emit_code_block :: "parse_state \<Rightarrow> pystr list" where
  "emit_code_block s =
     (if code_block_content s \<noteq> []
      then structured_lines s @ [asc ''[CODE_BLOCK_START]''] @ code_block_content s @ [asc ''[CODE_BLOCK_END]'']
      else structured_lines s)"

text \<open>The body of the loop over the lines.\<close>

definition parse_line :: "parse_state \<Rightarrow> pystr \<Rightarrow> error + parse_state" where
  "parse_line s original_line =
     (let line = rstrip original_line
      in if startswith line (asc ''```'') then
           (if p_in_code_block s
            then Inr (s\<lparr>structured_lines := emit_code_block s, code_block_content := [],
                        p_in_code_block := False\<rparr>)
            else Inr (s\<lparr>p_in_code_block := True\<rparr>))
         else if p_in_code_block s then Inr (s\<lparr>code_block_content := code_block_content s @ [line]\<rparr>)
         else ebind (process_markdown_line line) (\<lambda>processed_line.
                Inr (s\<lparr>structured_lines := structured_lines s @ [processed_line]\<rparr>)))"

fun parse_lines :: "parse_state \<Rightarrow> pystr list \<Rightarrow> error + parse_state" where
  "parse_lines s [] = Inr s"
| "parse_lines s (l # ls) = ebind (parse_line s l) (\<lambda>s'. parse_lines s' ls)"

definition parse_init :: parse_state where
  "parse_init = \<lparr>structured_lines = [], p_in_code_block = False, code_block_content = []\<rparr>"

definition parse_markdown_structure :: "pystr \<Rightarrow> error + pystr" where
  "parse_markdown_structure text0 =
     ebind (parse_lines parse_init (split_on 10 text0)) (\<lambda>s.
       Inr (join [10] (if p_in_code_block s then emit_code_block s else structured_lines s)))"

section \<open>The Page Renderer\<close>

text \<open>
  \<^verbatim>\<open>re.match(r"\[HEADING_(\d+)\](.*)", line)\<close> and
  \<^verbatim>\<open>re.match(r"\[LIST_(BULLET|NUMBERED)_(\d+)\](.*)", line)\<close>: the groups.
\<close>

definition match_heading_tag :: "pystr \<Rightarrow> (pystr \<times> pystr) option" where
  "match_heading_tag line =
     (let r = drop 9 line;
          ds = takeWhile isdigit r;
          r2 = drop (length ds) r
      in if startswith line (asc ''[HEADING_'') \<and> ds \<noteq> [] \<and> startswith r2 (asc '']'')
         then Some (ds, takeWhile (\<lambda>c. c \<noteq> 10) (drop 1 r2)) else None)"

definition match_list_tag :: "pystr \<Rightarrow> (pystr \<times> pystr \<times> pystr) option" where
  "match_list_tag line =
     (let list_type = (if startswith (drop 6 line) (asc ''BULLET'') then asc ''BULLET'' else asc ''NUMBERED'');
          r = drop (6 + length list_type) line;
          ds = takeWhile isdigit (drop 1 r);
          r2 = drop (1 + length ds) r
      in if startswith line (asc ''[LIST_'' @ list_type @ asc ''_'') \<and> ds \<noteq> [] \<and> startswith r2 (asc '']'')
         then Some (list_type, ds, takeWhile (\<lambda>c. c \<noteq> 10) (drop 1 r2)) else None)"

definition finalize_html_table :: "pystr list list \<Rightarrow> pystr" where
  "finalize_html_table rows =
     (case rows of
        [] \<Rightarrow> []
      | header # body \<Rightarrow>
          asc ''<table><thead><tr>'' @
          concat (map (\<lambda>cell. asc ''<th>'' @ cell @ asc ''</th>'') header) @
          asc ''</tr></thead><tbody>'' @
          concat (map (\<lambda>row. asc ''<tr>'' @ concat (map (\<lambda>cell. asc ''<td>'' @ cell @ asc ''</td>'') row) @
                              asc ''</tr>'') body) @
          asc ''</tbody></table>'')"

record html_state =
  html_lines :: "pystr list"
  in_list :: "pystr option"
  list_level :: int
  in_table :: bool
  table_rows :: "pystr list list"
  in_code_block :: bool
  code_lines :: "pystr list"

text \<open>\<open>if in_list:\<close> holds for a string that is not empty.\<close>

definition closing_tag :: "pystr option \<Rightarrow> pystr list" where
  "closing_tag t = (case t of None \<Rightarrow> [] | Some tag \<Rightarrow> (if tag = [] then [] else [asc ''</'' @ tag @ asc ''>'']))"

text \<open>
  The two blocks that open the branches of the loop: closing the list and flushing the
  table.
\<close>

definition close_list :: "html_state \<Rightarrow> html_state" where
  "close_list s =
     (if closing_tag (in_list s) \<noteq> []
      then s\<lparr>html_lines := html_lines s @ closing_tag (in_list s), in_list := None\<rparr> else s)"

definition flush_table :: "html_state \<Rightarrow> html_state" where
  "flush_table s =
     (if in_table s
      then s\<lparr>html_lines := html_lines s @ [finalize_html_table (table_rows s)],
              in_table := False, table_rows := []\<rparr>
      else s)"

definition emit :: "pystr \<Rightarrow> html_state \<Rightarrow> html_state" where
  "emit l s = s\<lparr>html_lines := html_lines s @ [l]\<rparr>"

definition code_html :: "pystr list \<Rightarrow> pystr" where
  "code_html ls = asc ''<pre><code>'' @ html_escape (join [10] ls) @ asc ''</code></pre>''"

text \<open>The body of the loop of \<open>_convert_structured_content_to_html\<close>.\<close>

definition html_step :: "html_state \<Rightarrow> pystr \<Rightarrow> html_state" where
  "html_step s line =
     (if line = asc ''[CODE_BLOCK_START]'' then s\<lparr>in_code_block := True, code_lines := []\<rparr>
      else if line = asc ''[CODE_BLOCK_END]'' then
        (if code_lines s \<noteq> [] then emit (code_html (code_lines s)) s else s)
          \<lparr>in_code_block := False, code_lines := []\<rparr>
      else if in_code_block s then s\<lparr>code_lines := code_lines s @ [line]\<rparr>
      else if startswith line (asc ''[HEADING_'') then
        (let s1 = flush_table (close_list s)
         in case match_heading_tag line of
              None \<Rightarrow> s1
            | Some (ds, text0) \<Rightarrow>
                (let h = str_nat (min (int_of_digits ds) 6)
                 in emit (asc ''<h'' @ h @ asc ''>'' @ html_escape text0 @ asc ''</h'' @ h @ asc ''>'') s1))
      else if line = asc ''[HORIZONTAL_RULE]'' then emit (asc ''<hr>'') (flush_table (close_list s))
      else if startswith line (asc ''[LIST_'') then
        (let s1 = flush_table s
         in case match_list_tag line of
              None \<Rightarrow> s1
            | Some (list_type, ds, text0) \<Rightarrow>
                (let level = int (int_of_digits ds);
                     new_list_tag = (if list_type = asc ''BULLET'' then asc ''ul'' else asc ''ol'');
                     s2 = (if in_list s1 \<noteq> Some new_list_tag \<or> level \<noteq> list_level s1
                           then s1\<lparr>html_lines := html_lines s1 @ closing_tag (in_list s1) @
                                      [asc ''<'' @ new_list_tag @ asc ''>''],
                                    in_list := Some new_list_tag, list_level := level\<rparr>
                           else s1)
                 in emit (asc ''<li>'' @ html_escape text0 @ asc ''</li>'') s2))
      else if startswith line (asc ''[BLOCKQUOTE]'') then
        emit (asc ''<blockquote><p>'' @ html_escape (drop 12 line) @ asc ''</p></blockquote>'')
          (flush_table (close_list s))
      else if startswith line (asc ''[TABLE_'') then
        (let s1 = close_list s
         in if line = asc ''[TABLE_SEPARATOR]'' then s1
            else if startswith line (asc ''[TABLE_ROW]'') then
              (let s2 = (if \<not> in_table s1 then s1\<lparr>in_table := True, table_rows := []\<rparr> else s1);
                   cells = split_on 124 (drop 11 line)
               in s2\<lparr>table_rows := table_rows s2 @ [map (\<lambda>cell. html_escape (strip cell)) cells]\<rparr>)
            else s1)
      else if startswith line (asc ''[PARAGRAPH]'') then
        (let s1 = flush_table (close_list s);
             text0 = drop 11 line
         in if strip text0 \<noteq> [] then emit (asc ''<p>'' @ html_escape text0 @ asc ''</p>'') s1 else s1)
      else s)"

definition html_init :: html_state where
  "html_init = \<lparr>html_lines = [], in_list = None, list_level = - 1, in_table = False,
                 table_rows = [], in_code_block = False, code_lines = []\<rparr>"

text \<open>What follows the loop: the tags that are still open are closed.\<close>

definition html_finish :: "html_state \<Rightarrow> pystr list" where
  "html_finish s =
     html_lines s @ closing_tag (in_list s) @
     (if in_table s then [finalize_html_table (table_rows s)] else []) @
     (if in_code_block s \<and> code_lines s \<noteq> [] then [code_html (code_lines s)] else [])"

definition convert_structured_content_to_html :: "pystr \<Rightarrow> pystr" where
  "convert_structured_content_to_html content =
     join [10] (html_finish (foldl html_step html_init (split_on 10 (strip content))))"

section \<open>The Document Renderer\<close>

text \<open>
  The document is the sequence of elements that the calls on \<open>doc\<close> append. An element
  keeps the text and the formatting that tells the kinds of elements apart; fonts,
  colours of runs and spacing after a paragraph are left out. The document comes from
  the default template, which has both list styles, so \<open>_add_list_item_to_docx\<close> does
  not fall back to the style Normal. What the document library does with the text of
  a run is outside the model.
\<close>

datatype alignment = LEFT | CENTER

record docx_cell =
  cell_text :: pystr
  cell_fill :: "pystr option"

datatype docx_element =
    DHeading nat pystr nat nat
  | DParagraph pystr bool alignment
  | DListItem pystr pystr nat
  | DBlockquote pystr
  | DCodeBlock pystr
  | DHorizontalRule
  | DTable "docx_cell list list"

text \<open>
  \<open>DHeading\<close>: the level given to \<open>add_heading\<close>, the text of the bold run, the font
  size and the space before. \<open>DParagraph\<close>: the text of the run, whether it is italic,
  the alignment. \<open>DListItem\<close>: the style, the text, the nesting level.
\<close>

definition font_sizes :: "nat \<Rightarrow> nat" where
  "font_sizes level =
     (if level = 1 then 18 else if level = 2 then 16 else if level = 3 then 14
      else if level = 4 then 12 else if level = 5 then 11 else 10)"

definition add_heading_to_docx :: "docx_element list \<Rightarrow> nat \<Rightarrow> pystr \<Rightarrow> docx_element list" where
  "add_heading_to_docx doc level text0 =
     doc @ [DHeading (min level 6) (strip text0) (font_sizes level) (if level = 1 then 12 else 6)]"

definition add_clean_paragraph_to_docx :: "docx_element list \<Rightarrow> pystr \<Rightarrow> docx_element list" where
  "add_clean_paragraph_to_docx doc text0 =
     (let clean_text = strip text0
      in if startswith clean_text (asc ''_'') \<and> endswith clean_text (asc ''_'') \<and> length clean_text > 2
         then doc @ [DParagraph (butlast (drop 1 clean_text)) True LEFT]
         else doc @ [DParagraph clean_text False LEFT])"

definition add_list_item_to_docx :: "docx_element list \<Rightarrow> pystr \<Rightarrow> bool \<Rightarrow> nat \<Rightarrow> docx_element list" where
  "add_list_item_to_docx doc text0 is_numbered level =
     doc @ [DListItem (if is_numbered then asc ''List Number'' else asc ''List Bullet'') (strip text0) level]"

definition add_blockquote_to_docx :: "docx_element list \<Rightarrow> pystr \<Rightarrow> docx_element list" where
  "add_blockquote_to_docx doc text0 = doc @ [DBlockquote (strip text0)]"

definition add_code_block_to_docx :: "docx_element list \<Rightarrow> pystr \<Rightarrow> docx_element list" where
  "add_code_block_to_docx doc code_content = doc @ [DCodeBlock code_content]"

definition add_horizontal_rule :: "docx_element list \<Rightarrow> docx_element list" where
  "add_horizontal_rule doc = doc @ [DHorizontalRule]"

text \<open>
  A table has as many columns as its first row has cells. A longer row loses its
  further cells; a shorter row leaves the cells that \<open>add_row\<close> created empty.
\<close>

definition docx_data_row :: "nat \<Rightarrow> nat \<times> pystr list \<Rightarrow> docx_cell list" where
  "docx_data_row num_cols p =
     (case p of (r_idx, row_data) \<Rightarrow>
        map (\<lambda>cell_data. \<lparr>cell_text = strip cell_data,
                           cell_fill = (if r_idx mod 2 = 0 then Some (asc ''F9F9F9'') else None)\<rparr>)
          (take num_cols row_data) @
        replicate (num_cols - length row_data) \<lparr>cell_text = [], cell_fill = None\<rparr>)"

definition finalize_docx_table :: "docx_element list \<Rightarrow> pystr list list \<Rightarrow> docx_element list" where
  "finalize_docx_table doc rows =
     (case rows of
        [] \<Rightarrow> doc
      | header_row # body \<Rightarrow>
          (if length header_row = 0 then doc
           else doc @ [DTable
             (map (\<lambda>cell_text0. \<lparr>cell_text = strip cell_text0, cell_fill = Some (asc ''D9E2F3'')\<rparr>) header_row #
              map (docx_data_row (length header_row)) (zip [1 ..< Suc (length body)] body))]))"

record docx_state =
  doc :: "docx_element list"
  current_list_type :: "pystr option"
  d_list_level :: int
  d_in_table :: bool
  d_table_rows :: "pystr list list"
  d_in_code_block :: bool
  d_code_lines :: "pystr list"

definition d_close_list :: "docx_state \<Rightarrow> docx_state" where
  "d_close_list s =
     (if current_list_type s \<noteq> None \<and> current_list_type s \<noteq> Some []
      then s\<lparr>current_list_type := None\<rparr> else s)"

definition d_flush_table :: "docx_state \<Rightarrow> docx_state" where
  "d_flush_table s =
     (if d_in_table s
      then s\<lparr>doc := finalize_docx_table (doc s) (d_table_rows s), d_in_table := False, d_table_rows := []\<rparr>
      else s)"

text \<open>The body of the loop of \<open>_add_structured_content_to_docx\<close>.\<close>

definition docx_step :: "docx_state \<Rightarrow> pystr \<Rightarrow> docx_state" where
  "docx_step s line =
     (if line = asc ''[CODE_BLOCK_START]'' then s\<lparr>d_in_code_block := True, d_code_lines := []\<rparr>
      else if line = asc ''[CODE_BLOCK_END]'' then
        (if d_code_lines s \<noteq> [] then s\<lparr>doc := add_code_block_to_docx (doc s) (join [10] (d_code_lines s))\<rparr>
         else s)
          \<lparr>d_in_code_block := False, d_code_lines := []\<rparr>
      else if d_in_code_block s then s\<lparr>d_code_lines := d_code_lines s @ [line]\<rparr>
      else if startswith line (asc ''[HEADING_'') then
        (let s1 = d_flush_table (d_close_list s)
         in case match_heading_tag line of
              None \<Rightarrow> s1
            | Some (ds, text0) \<Rightarrow> s1\<lparr>doc := add_heading_to_docx (doc s1) (int_of_digits ds) text0\<rparr>)
      else if line = asc ''[HORIZONTAL_RULE]'' then
        (let s1 = d_flush_table (d_close_list s) in s1\<lparr>doc := add_horizontal_rule (doc s1)\<rparr>)
      else if startswith line (asc ''[LIST_'') then
        (let s1 = d_flush_table s
         in case match_list_tag line of
              None \<Rightarrow> s1
            | Some (list_type, ds, text0) \<Rightarrow>
                (let level = int_of_digits ds;
                     is_numbered = (list_type = asc ''NUMBERED'');
                     s2 = (if current_list_type s1 \<noteq> Some list_type \<or> int level \<noteq> d_list_level s1
                           then s1\<lparr>current_list_type := Some list_type, d_list_level := int level\<rparr>
                           else s1)
                 in s2\<lparr>doc := add_list_item_to_docx (doc s2) text0 is_numbered level\<rparr>))
      else if startswith line (asc ''[BLOCKQUOTE]'') then
        (let s1 = d_flush_table (d_close_list s) in s1\<lparr>doc := add_blockquote_to_docx (doc s1) (drop 12 line)\<rparr>)
      else if startswith line (asc ''[TABLE_'') then
        (let s1 = d_close_list s
         in if line = asc ''[TABLE_SEPARATOR]'' then s1
            else if startswith line (asc ''[TABLE_ROW]'') then
              (let s2 = (if \<not> d_in_table s1 then s1\<lparr>d_in_table := True, d_table_rows := []\<rparr> else s1);
                   cells = map strip (split_on 124 (drop 11 line))
               in s2\<lparr>d_table_rows := d_table_rows s2 @ [cells]\<rparr>)
            else s1)
      else if startswith line (asc ''[PARAGRAPH]'') then
        (let s1 = d_flush_table (d_close_list s);
             text0 = drop 11 line
         in if strip text0 \<noteq> [] then s1\<lparr>doc := add_clean_paragraph_to_docx (doc s1) text0\<rparr> else s1)
      else s)"

definition docx_init :: "docx_element list \<Rightarrow> docx_state" where
  "docx_init d = \<lparr>doc = d, current_list_type = None, d_list_level = - 1, d_in_table = False,
                   d_table_rows = [], d_in_code_block = False, d_code_lines = []\<rparr>"

text \<open>What follows the loop: an open table and an open code block are added.\<close>

definition docx_finish :: "docx_state \<Rightarrow> docx_element list" where
  "docx_finish s =
     (let d1 = (if d_in_table s then finalize_docx_table (doc s) (d_table_rows s) else doc s)
      in if d_in_code_block s \<and> d_code_lines s \<noteq> []
         then add_code_block_to_docx d1 (join [10] (d_code_lines s)) else d1)"

definition add_structured_content_to_docx :: "docx_element list \<Rightarrow> pystr \<Rightarrow> docx_element list" where
  "add_structured_content_to_docx d content =
     docx_finish (foldl docx_step (docx_init d) (split_on 10 (strip content)))"

section \<open>Predicates of the statements\<close>

text \<open>
  The blocks that end a table run in both renderers: heading, horizontal rule, list
  item, blockquote and paragraph.
\<close>

definition flushing_block :: "pystr \<Rightarrow> bool" where
  "flushing_block l \<longleftrightarrow>
     startswith l (asc ''[HEADING_'') \<or> l = asc ''[HORIZONTAL_RULE]'' \<or>
     startswith l (asc ''[LIST_'') \<or> startswith l (asc ''[BLOCKQUOTE]'') \<or>
     startswith l (asc ''[PARAGRAPH]'')"

text \<open>
  The heading pattern as the specification words it: one or more \<open>#\<close>, then a space,
  then content.
\<close>

definition spec_heading_line :: "pystr \<Rightarrow> bool" where
  "spec_heading_line l \<longleftrightarrow>
     (let hashes = takeWhile (\<lambda>c. c = 35) l; r = drop (length hashes) l
      in hashes \<noteq> [] \<and> startswith r [32] \<and> 1 < length r)"

text \<open>
  The characters that the patterns of the Inline Cleaner take as markdown syntax:
  asterisk, underscore, tilde, backtick, the square brackets, the angle brackets and
  the backslash.
\<close>

definition md_delim :: "pychar \<Rightarrow> bool" where
  "md_delim c \<longleftrightarrow> c = 42 \<or> c = 95 \<or> c = 126 \<or> c = 96 \<or> c = 91 \<or> c = 93 \<or> c = 60 \<or> c = 62 \<or> c = 92"

text \<open>
  A text whose white space is collapsed: every white space character is a space and no
  two of them are adjacent.
\<close>

fun ws_norm :: "pystr \<Rightarrow> bool" where
  "ws_norm [] = True"
| "ws_norm [a] = (isspace a \<longrightarrow> a = 32)"
| "ws_norm (a # b # r) = ((isspace a \<longrightarrow> a = 32 \<and> \<not> isspace b) \<and> ws_norm (b # r))"

text \<open>
  The lines that open and close a list container in the output of the Page Renderer,
  and the invariant of its loop: the open tags are as many as the closing tags, plus
  one while a list is open.
\<close>

definition is_open_tag :: "pystr \<Rightarrow> bool" where
  "is_open_tag l \<longleftrightarrow> l = asc ''<ul>'' \<or> l = asc ''<ol>''"

definition is_close_tag :: "pystr \<Rightarrow> bool" where
  "is_close_tag l \<longleftrightarrow> l = asc ''</ul>'' \<or> l = asc ''</ol>''"

definition list_balanced :: "html_state \<Rightarrow> bool" where
  "list_balanced s \<longleftrightarrow>
     (in_list s = None \<or> in_list s = Some (asc ''ul'') \<or> in_list s = Some (asc ''ol'')) \<and>
     length (filter is_open_tag (html_lines s)) =
       length (filter is_close_tag (html_lines s)) + (if in_list s = None then 0 else 1)"

section \<open>Evaluation on concrete inputs\<close>

lemmas str_defs = asc_def isspace_def strip_def lstrip_def rstrip_def startswith_def endswith_def
  html_escape_def escape_char_def isdigit_def digit_val_def nd_ranges_def int_of_digits_def
  str_nat.simps

lemmas clean_defs = clean_inline_markdown_def ebind_def bold_pat_def pair_at_def italic_pat_def
  italic_alt_def strike_pat_def code_pat_def link_pat_def replace_bold_def replace_italic_def
  py_or_def replace_strike_def replace_code_def replace_links_def

lemmas parse_defs = parse_markdown_structure_def parse_init_def parse_line_def emit_code_block_def
  process_markdown_line_def process_table_line_def match_heading_def match_rule_def match_list_def

lemmas html_defs = convert_structured_content_to_html_def html_finish_def html_init_def
  html_step_def emit_def code_html_def flush_table_def close_list_def closing_tag_def
  finalize_html_table_def match_heading_tag_def match_list_tag_def

lemmas docx_defs = add_structured_content_to_docx_def docx_finish_def docx_init_def docx_step_def
  d_flush_table_def d_close_list_def finalize_docx_table_def docx_data_row_def
  add_heading_to_docx_def add_clean_paragraph_to_docx_def add_list_item_to_docx_def
  add_blockquote_to_docx_def add_code_block_to_docx_def add_horizontal_rule_def font_sizes_def
  match_heading_tag_def match_list_tag_def

section \<open>Which branch of a renderer a line takes\<close>

text \<open>
  The tags of the structured lines differ within their first three characters, so the
  branch a line takes is decided there.
\<close>

lemma sw_take: "startswith l p \<Longrightarrow> n \<le> length p \<Longrightarrow> take n l = take n p"
  unfolding startswith_def by (metis min.absorb1 take_take)

lemma sw_append: "startswith l (p @ q) \<Longrightarrow> startswith l p"
proof -
  assume h: "startswith l (p @ q)"
  have "take (length p) l = take (length p) (take (length p + length q) l)"
    by (simp add: min_def)
  also have "\<dots> = take (length p) (p @ q)" using h by (simp add: startswith_def)
  finally show ?thesis by (simp add: startswith_def)
qed

lemma key_code_start: "l = asc ''[CODE_BLOCK_START]'' \<Longrightarrow> take 3 l = [91, 67, 79]"
  by (simp add: asc_def)

lemma key_code_end: "l = asc ''[CODE_BLOCK_END]'' \<Longrightarrow> take 3 l = [91, 67, 79]"
  by (simp add: asc_def)

lemma key_heading: "startswith l (asc ''[HEADING_'') \<Longrightarrow> take 3 l = [91, 72, 69]"
  by (drule sw_take [where n = 3]) (simp_all add: asc_def)

lemma key_rule: "l = asc ''[HORIZONTAL_RULE]'' \<Longrightarrow> take 3 l = [91, 72, 79]"
  by (simp add: asc_def)

lemma key_list: "startswith l (asc ''[LIST_'') \<Longrightarrow> take 3 l = [91, 76, 73]"
  by (drule sw_take [where n = 3]) (simp_all add: asc_def)

lemma key_blockquote: "startswith l (asc ''[BLOCKQUOTE]'') \<Longrightarrow> take 3 l = [91, 66, 76]"
  by (drule sw_take [where n = 3]) (simp_all add: asc_def)

lemma key_table: "startswith l (asc ''[TABLE_'') \<Longrightarrow> take 3 l = [91, 84, 65]"
  by (drule sw_take [where n = 3]) (simp_all add: asc_def)

lemma key_paragraph: "startswith l (asc ''[PARAGRAPH]'') \<Longrightarrow> take 3 l = [91, 80, 65]"
  by (drule sw_take [where n = 3]) (simp_all add: asc_def)

lemma not_code_start: "take 3 l \<noteq> [91, 67, 79] \<Longrightarrow> l \<noteq> asc ''[CODE_BLOCK_START]''"
  using key_code_start by blast

lemma not_code_end: "take 3 l \<noteq> [91, 67, 79] \<Longrightarrow> l \<noteq> asc ''[CODE_BLOCK_END]''"
  using key_code_end by blast

lemma not_heading: "take 3 l \<noteq> [91, 72, 69] \<Longrightarrow> \<not> startswith l (asc ''[HEADING_'')"
  using key_heading by blast

lemma not_rule: "take 3 l \<noteq> [91, 72, 79] \<Longrightarrow> l \<noteq> asc ''[HORIZONTAL_RULE]''"
  using key_rule by blast

lemma not_list: "take 3 l \<noteq> [91, 76, 73] \<Longrightarrow> \<not> startswith l (asc ''[LIST_'')"
  using key_list by blast

lemma not_blockquote: "take 3 l \<noteq> [91, 66, 76] \<Longrightarrow> \<not> startswith l (asc ''[BLOCKQUOTE]'')"
  using key_blockquote by blast

lemma not_table: "take 3 l \<noteq> [91, 84, 65] \<Longrightarrow> \<not> startswith l (asc ''[TABLE_'')"
  using key_table by blast

lemma not_paragraph: "take 3 l \<noteq> [91, 80, 65] \<Longrightarrow> \<not> startswith l (asc ''[PARAGRAPH]'')"
  using key_paragraph by blast

lemmas not_tags = not_code_start not_code_end not_heading not_rule not_list not_blockquote
  not_table not_paragraph

text \<open>A blank line is made of white space and carries no tag.\<close>

lemma dropWhile_rev_Nil: "dropWhile P (rev l) = [] \<longleftrightarrow> (\<forall>c\<in>set l. P c)"
  by (simp add: dropWhile_eq_Nil_conv)

lemma strip_Nil: "strip l = [] \<longleftrightarrow> (\<forall>c\<in>set l. isspace c)"
proof
  assume a: "strip l = []"
  have "dropWhile isspace (rev l) = []"
  proof (rule ccontr)
    assume n: "dropWhile isspace (rev l) \<noteq> []"
    then have "\<not> isspace (hd (dropWhile isspace (rev l)))" by (rule hd_dropWhile)
    moreover have "hd (dropWhile isspace (rev l)) \<in> set (rev (dropWhile isspace (rev l)))"
      using n by simp
    ultimately show False
      using a by (auto simp: strip_def lstrip_def rstrip_def dropWhile_eq_Nil_conv)
  qed
  then show "\<forall>c\<in>set l. isspace c" by (metis dropWhile_eq_Nil_conv set_rev)
next
  assume "\<forall>c\<in>set l. isspace c"
  then have "dropWhile isspace (rev l) = []" by (metis dropWhile_eq_Nil_conv set_rev)
  then have "rstrip l = []" unfolding rstrip_def by (simp only: rev.simps)
  then show "strip l = []" unfolding strip_def lstrip_def by (simp only: dropWhile.simps)
qed

lemma blank_key: assumes "strip l = []" shows "take 3 l \<noteq> 91 # k"
proof
  assume t: "take 3 l = 91 # k"
  then have "l \<noteq> []" by auto
  then have "hd (take 3 l) \<in> set l" by (cases l) auto
  then have "isspace 91" using t assms by (simp add: strip_Nil)
  then show False by (simp add: isspace_def)
qed

subsection \<open>The Page Renderer\<close>

lemma html_step_code_start:
  "html_step s (asc ''[CODE_BLOCK_START]'') = s\<lparr>in_code_block := True, code_lines := []\<rparr>"
  by (simp add: html_step_def)

lemma html_step_code_end:
  "html_step s (asc ''[CODE_BLOCK_END]'') =
     (if code_lines s \<noteq> [] then emit (code_html (code_lines s)) s else s)
       \<lparr>in_code_block := False, code_lines := []\<rparr>"
proof -
  have "asc ''[CODE_BLOCK_END]'' \<noteq> asc ''[CODE_BLOCK_START]''" by (simp add: asc_def)
  then show ?thesis by (simp add: html_step_def)
qed

lemma html_step_code_line:
  "in_code_block s \<Longrightarrow> l \<noteq> asc ''[CODE_BLOCK_START]'' \<Longrightarrow> l \<noteq> asc ''[CODE_BLOCK_END]'' \<Longrightarrow>
   html_step s l = s\<lparr>code_lines := code_lines s @ [l]\<rparr>"
  by (simp add: html_step_def)

lemma html_step_heading:
  assumes "\<not> in_code_block s" "startswith l (asc ''[HEADING_'')"
  shows "html_step s l =
     (let s1 = flush_table (close_list s)
      in case match_heading_tag l of
           None \<Rightarrow> s1
         | Some (ds, text0) \<Rightarrow>
             (let h = str_nat (min (int_of_digits ds) 6)
              in emit (asc ''<h'' @ h @ asc ''>'' @ html_escape text0 @ asc ''</h'' @ h @ asc ''>'') s1))"
proof -
  have k: "take 3 l = [91, 72, 69]" using assms(2) by (rule key_heading)
  have "l \<noteq> asc ''[CODE_BLOCK_START]''" "l \<noteq> asc ''[CODE_BLOCK_END]''"
    using k by (simp_all add: not_tags)
  then show ?thesis using assms unfolding html_step_def by simp
qed

lemma html_step_rule:
  assumes "\<not> in_code_block s"
  shows "html_step s (asc ''[HORIZONTAL_RULE]'') = emit (asc ''<hr>'') (flush_table (close_list s))"
proof -
  have k: "take 3 (asc ''[HORIZONTAL_RULE]'') = [91, 72, 79]" by (simp add: asc_def)
  have "asc ''[HORIZONTAL_RULE]'' \<noteq> asc ''[CODE_BLOCK_START]''"
    "asc ''[HORIZONTAL_RULE]'' \<noteq> asc ''[CODE_BLOCK_END]''"
    "\<not> startswith (asc ''[HORIZONTAL_RULE]'') (asc ''[HEADING_'')"
    using k by (simp_all add: not_tags)
  then show ?thesis using assms unfolding html_step_def by simp
qed

lemma html_step_list:
  assumes "\<not> in_code_block s" "startswith l (asc ''[LIST_'')"
  shows "html_step s l =
     (let s1 = flush_table s
      in case match_list_tag l of
           None \<Rightarrow> s1
         | Some (list_type, ds, text0) \<Rightarrow>
             (let level = int (int_of_digits ds);
                  new_list_tag = (if list_type = asc ''BULLET'' then asc ''ul'' else asc ''ol'');
                  s2 = (if in_list s1 \<noteq> Some new_list_tag \<or> level \<noteq> list_level s1
                        then s1\<lparr>html_lines := html_lines s1 @ closing_tag (in_list s1) @
                                   [asc ''<'' @ new_list_tag @ asc ''>''],
                                 in_list := Some new_list_tag, list_level := level\<rparr>
                        else s1)
              in emit (asc ''<li>'' @ html_escape text0 @ asc ''</li>'') s2))"
proof -
  have k: "take 3 l = [91, 76, 73]" using assms(2) by (rule key_list)
  have "l \<noteq> asc ''[CODE_BLOCK_START]''" "l \<noteq> asc ''[CODE_BLOCK_END]''"
    "\<not> startswith l (asc ''[HEADING_'')" "l \<noteq> asc ''[HORIZONTAL_RULE]''"
    using k by (simp_all add: not_tags)
  then show ?thesis using assms unfolding html_step_def by simp
qed

lemma html_step_blockquote:
  assumes "\<not> in_code_block s" "startswith l (asc ''[BLOCKQUOTE]'')"
  shows "html_step s l =
     emit (asc ''<blockquote><p>'' @ html_escape (drop 12 l) @ asc ''</p></blockquote>'')
       (flush_table (close_list s))"
proof -
  have k: "take 3 l = [91, 66, 76]" using assms(2) by (rule key_blockquote)
  have "l \<noteq> asc ''[CODE_BLOCK_START]''" "l \<noteq> asc ''[CODE_BLOCK_END]''"
    "\<not> startswith l (asc ''[HEADING_'')" "l \<noteq> asc ''[HORIZONTAL_RULE]''"
    "\<not> startswith l (asc ''[LIST_'')"
    using k by (simp_all add: not_tags)
  then show ?thesis using assms unfolding html_step_def by simp
qed

lemma html_step_separator:
  assumes "\<not> in_code_block s"
  shows "html_step s (asc ''[TABLE_SEPARATOR]'') = close_list s"
proof -
  have k: "take 3 (asc ''[TABLE_SEPARATOR]'') = [91, 84, 65]" by (simp add: asc_def)
  have "asc ''[TABLE_SEPARATOR]'' \<noteq> asc ''[CODE_BLOCK_START]''"
    "asc ''[TABLE_SEPARATOR]'' \<noteq> asc ''[CODE_BLOCK_END]''"
    "\<not> startswith (asc ''[TABLE_SEPARATOR]'') (asc ''[HEADING_'')"
    "asc ''[TABLE_SEPARATOR]'' \<noteq> asc ''[HORIZONTAL_RULE]''"
    "\<not> startswith (asc ''[TABLE_SEPARATOR]'') (asc ''[LIST_'')"
    "\<not> startswith (asc ''[TABLE_SEPARATOR]'') (asc ''[BLOCKQUOTE]'')"
    using k by (simp_all add: not_tags)
  moreover have "startswith (asc ''[TABLE_SEPARATOR]'') (asc ''[TABLE_'')"
    by (simp add: startswith_def asc_def)
  ultimately show ?thesis using assms unfolding html_step_def by simp
qed

lemma html_step_row:
  assumes "\<not> in_code_block s" "startswith l (asc ''[TABLE_ROW]'')"
  shows "html_step s l =
     (let s1 = close_list s;
          s2 = (if \<not> in_table s1 then s1\<lparr>in_table := True, table_rows := []\<rparr> else s1)
      in s2\<lparr>table_rows := table_rows s2 @ [map (\<lambda>cell. html_escape (strip cell)) (split_on 124 (drop 11 l))]\<rparr>)"
proof -
  have "asc ''[TABLE_ROW]'' = asc ''[TABLE_'' @ asc ''ROW]''" by (simp add: asc_def)
  then have t: "startswith l (asc ''[TABLE_'')" using assms(2) sw_append by metis
  have k: "take 3 l = [91, 84, 65]" using t by (rule key_table)
  have "l \<noteq> asc ''[CODE_BLOCK_START]''" "l \<noteq> asc ''[CODE_BLOCK_END]''"
    "\<not> startswith l (asc ''[HEADING_'')" "l \<noteq> asc ''[HORIZONTAL_RULE]''"
    "\<not> startswith l (asc ''[LIST_'')" "\<not> startswith l (asc ''[BLOCKQUOTE]'')"
    using k by (simp_all add: not_tags)
  moreover have "l \<noteq> asc ''[TABLE_SEPARATOR]''"
    using sw_take [OF assms(2), of 8] by (auto simp: asc_def)
  ultimately show ?thesis using assms t unfolding html_step_def by (simp add: Let_def)
qed

lemma html_step_paragraph:
  assumes "\<not> in_code_block s" "startswith l (asc ''[PARAGRAPH]'')"
  shows "html_step s l =
     (let s1 = flush_table (close_list s); text0 = drop 11 l
      in if strip text0 \<noteq> [] then emit (asc ''<p>'' @ html_escape text0 @ asc ''</p>'') s1 else s1)"
proof -
  have k: "take 3 l = [91, 80, 65]" using assms(2) by (rule key_paragraph)
  have "l \<noteq> asc ''[CODE_BLOCK_START]''" "l \<noteq> asc ''[CODE_BLOCK_END]''"
    "\<not> startswith l (asc ''[HEADING_'')" "l \<noteq> asc ''[HORIZONTAL_RULE]''"
    "\<not> startswith l (asc ''[LIST_'')" "\<not> startswith l (asc ''[BLOCKQUOTE]'')"
    "\<not> startswith l (asc ''[TABLE_'')"
    using k by (simp_all add: not_tags)
  then show ?thesis using assms unfolding html_step_def by simp
qed

lemma html_step_blank:
  assumes "\<not> in_code_block s" "strip l = []"
  shows "html_step s l = s"
proof -
  have "l \<noteq> asc ''[CODE_BLOCK_START]''" "l \<noteq> asc ''[CODE_BLOCK_END]''"
    "\<not> startswith l (asc ''[HEADING_'')" "l \<noteq> asc ''[HORIZONTAL_RULE]''"
    "\<not> startswith l (asc ''[LIST_'')" "\<not> startswith l (asc ''[BLOCKQUOTE]'')"
    "\<not> startswith l (asc ''[TABLE_'')" "\<not> startswith l (asc ''[PARAGRAPH]'')"
    using blank_key [OF assms(2)] by (simp_all add: not_tags)
  then show ?thesis using assms unfolding html_step_def by simp
qed

lemma html_step_table:
  assumes "\<not> in_code_block s" "startswith l (asc ''[TABLE_'')"
  shows "html_step s l =
     (let s1 = close_list s
      in if l = asc ''[TABLE_SEPARATOR]'' then s1
         else if startswith l (asc ''[TABLE_ROW]'') then
           (let s2 = (if \<not> in_table s1 then s1\<lparr>in_table := True, table_rows := []\<rparr> else s1);
                cells = split_on 124 (drop 11 l)
            in s2\<lparr>table_rows := table_rows s2 @ [map (\<lambda>cell. html_escape (strip cell)) cells]\<rparr>)
         else s1)"
proof -
  have k: "take 3 l = [91, 84, 65]" using assms(2) by (rule key_table)
  have "l \<noteq> asc ''[CODE_BLOCK_START]''" "l \<noteq> asc ''[CODE_BLOCK_END]''"
    "\<not> startswith l (asc ''[HEADING_'')" "l \<noteq> asc ''[HORIZONTAL_RULE]''"
    "\<not> startswith l (asc ''[LIST_'')" "\<not> startswith l (asc ''[BLOCKQUOTE]'')"
    using k by (simp_all add: not_tags)
  then show ?thesis using assms unfolding html_step_def by simp
qed

lemma html_step_other:
  assumes "\<not> in_code_block s" "l \<noteq> asc ''[CODE_BLOCK_START]''" "l \<noteq> asc ''[CODE_BLOCK_END]''"
    "\<not> startswith l (asc ''[HEADING_'')" "l \<noteq> asc ''[HORIZONTAL_RULE]''"
    "\<not> startswith l (asc ''[LIST_'')" "\<not> startswith l (asc ''[BLOCKQUOTE]'')"
    "\<not> startswith l (asc ''[TABLE_'')" "\<not> startswith l (asc ''[PARAGRAPH]'')"
  shows "html_step s l = s"
  using assms unfolding html_step_def by simp

subsection \<open>The Document Renderer\<close>

lemma docx_step_code_start:
  "docx_step s (asc ''[CODE_BLOCK_START]'') = s\<lparr>d_in_code_block := True, d_code_lines := []\<rparr>"
  by (simp add: docx_step_def)

lemma docx_step_code_end:
  "docx_step s (asc ''[CODE_BLOCK_END]'') =
     (if d_code_lines s \<noteq> [] then s\<lparr>doc := add_code_block_to_docx (doc s) (join [10] (d_code_lines s))\<rparr>
      else s)
       \<lparr>d_in_code_block := False, d_code_lines := []\<rparr>"
proof -
  have "asc ''[CODE_BLOCK_END]'' \<noteq> asc ''[CODE_BLOCK_START]''" by (simp add: asc_def)
  then show ?thesis by (simp add: docx_step_def)
qed

lemma docx_step_code_line:
  "d_in_code_block s \<Longrightarrow> l \<noteq> asc ''[CODE_BLOCK_START]'' \<Longrightarrow> l \<noteq> asc ''[CODE_BLOCK_END]'' \<Longrightarrow>
   docx_step s l = s\<lparr>d_code_lines := d_code_lines s @ [l]\<rparr>"
  by (simp add: docx_step_def)

lemma docx_step_heading:
  assumes "\<not> d_in_code_block s" "startswith l (asc ''[HEADING_'')"
  shows "docx_step s l =
     (let s1 = d_flush_table (d_close_list s)
      in case match_heading_tag l of
           None \<Rightarrow> s1
         | Some (ds, text0) \<Rightarrow> s1\<lparr>doc := add_heading_to_docx (doc s1) (int_of_digits ds) text0\<rparr>)"
proof -
  have k: "take 3 l = [91, 72, 69]" using assms(2) by (rule key_heading)
  have "l \<noteq> asc ''[CODE_BLOCK_START]''" "l \<noteq> asc ''[CODE_BLOCK_END]''"
    using k by (simp_all add: not_tags)
  then show ?thesis using assms unfolding docx_step_def by simp
qed

lemma docx_step_rule:
  assumes "\<not> d_in_code_block s"
  shows "docx_step s (asc ''[HORIZONTAL_RULE]'') =
     (let s1 = d_flush_table (d_close_list s) in s1\<lparr>doc := add_horizontal_rule (doc s1)\<rparr>)"
proof -
  have k: "take 3 (asc ''[HORIZONTAL_RULE]'') = [91, 72, 79]" by (simp add: asc_def)
  have "asc ''[HORIZONTAL_RULE]'' \<noteq> asc ''[CODE_BLOCK_START]''"
    "asc ''[HORIZONTAL_RULE]'' \<noteq> asc ''[CODE_BLOCK_END]''"
    "\<not> startswith (asc ''[HORIZONTAL_RULE]'') (asc ''[HEADING_'')"
    using k by (simp_all add: not_tags)
  then show ?thesis using assms unfolding docx_step_def by simp
qed

lemma docx_step_list:
  assumes "\<not> d_in_code_block s" "startswith l (asc ''[LIST_'')"
  shows "docx_step s l =
     (let s1 = d_flush_table s
      in case match_list_tag l of
           None \<Rightarrow> s1
         | Some (list_type, ds, text0) \<Rightarrow>
             (let level = int_of_digits ds;
                  is_numbered = (list_type = asc ''NUMBERED'');
                  s2 = (if current_list_type s1 \<noteq> Some list_type \<or> int level \<noteq> d_list_level s1
                        then s1\<lparr>current_list_type := Some list_type, d_list_level := int level\<rparr>
                        else s1)
              in s2\<lparr>doc := add_list_item_to_docx (doc s2) text0 is_numbered level\<rparr>))"
proof -
  have k: "take 3 l = [91, 76, 73]" using assms(2) by (rule key_list)
  have "l \<noteq> asc ''[CODE_BLOCK_START]''" "l \<noteq> asc ''[CODE_BLOCK_END]''"
    "\<not> startswith l (asc ''[HEADING_'')" "l \<noteq> asc ''[HORIZONTAL_RULE]''"
    using k by (simp_all add: not_tags)
  then show ?thesis using assms unfolding docx_step_def by simp
qed

lemma docx_step_blockquote:
  assumes "\<not> d_in_code_block s" "startswith l (asc ''[BLOCKQUOTE]'')"
  shows "docx_step s l =
     (let s1 = d_flush_table (d_close_list s) in s1\<lparr>doc := add_blockquote_to_docx (doc s1) (drop 12 l)\<rparr>)"
proof -
  have k: "take 3 l = [91, 66, 76]" using assms(2) by (rule key_blockquote)
  have "l \<noteq> asc ''[CODE_BLOCK_START]''" "l \<noteq> asc ''[CODE_BLOCK_END]''"
    "\<not> startswith l (asc ''[HEADING_'')" "l \<noteq> asc ''[HORIZONTAL_RULE]''"
    "\<not> startswith l (asc ''[LIST_'')"
    using k by (simp_all add: not_tags)
  then show ?thesis using assms unfolding docx_step_def by simp
qed

lemma docx_step_separator:
  assumes "\<not> d_in_code_block s"
  shows "docx_step s (asc ''[TABLE_SEPARATOR]'') = d_close_list s"
proof -
  have k: "take 3 (asc ''[TABLE_SEPARATOR]'') = [91, 84, 65]" by (simp add: asc_def)
  have "asc ''[TABLE_SEPARATOR]'' \<noteq> asc ''[CODE_BLOCK_START]''"
    "asc ''[TABLE_SEPARATOR]'' \<noteq> asc ''[CODE_BLOCK_END]''"
    "\<not> startswith (asc ''[TABLE_SEPARATOR]'') (asc ''[HEADING_'')"
    "asc ''[TABLE_SEPARATOR]'' \<noteq> asc ''[HORIZONTAL_RULE]''"
    "\<not> startswith (asc ''[TABLE_SEPARATOR]'') (asc ''[LIST_'')"
    "\<not> startswith (asc ''[TABLE_SEPARATOR]'') (asc ''[BLOCKQUOTE]'')"
    using k by (simp_all add: not_tags)
  moreover have "startswith (asc ''[TABLE_SEPARATOR]'') (asc ''[TABLE_'')"
    by (simp add: startswith_def asc_def)
  ultimately show ?thesis using assms unfolding docx_step_def by simp
qed

lemma docx_step_row:
  assumes "\<not> d_in_code_block s" "startswith l (asc ''[TABLE_ROW]'')"
  shows "docx_step s l =
     (let s1 = d_close_list s;
          s2 = (if \<not> d_in_table s1 then s1\<lparr>d_in_table := True, d_table_rows := []\<rparr> else s1)
      in s2\<lparr>d_table_rows := d_table_rows s2 @ [map strip (split_on 124 (drop 11 l))]\<rparr>)"
proof -
  have "asc ''[TABLE_ROW]'' = asc ''[TABLE_'' @ asc ''ROW]''" by (simp add: asc_def)
  then have t: "startswith l (asc ''[TABLE_'')" using assms(2) sw_append by metis
  have k: "take 3 l = [91, 84, 65]" using t by (rule key_table)
  have "l \<noteq> asc ''[CODE_BLOCK_START]''" "l \<noteq> asc ''[CODE_BLOCK_END]''"
    "\<not> startswith l (asc ''[HEADING_'')" "l \<noteq> asc ''[HORIZONTAL_RULE]''"
    "\<not> startswith l (asc ''[LIST_'')" "\<not> startswith l (asc ''[BLOCKQUOTE]'')"
    using k by (simp_all add: not_tags)
  moreover have "l \<noteq> asc ''[TABLE_SEPARATOR]''"
    using sw_take [OF assms(2), of 8] by (auto simp: asc_def)
  ultimately show ?thesis using assms t unfolding docx_step_def by (simp add: Let_def)
qed

lemma docx_step_paragraph:
  assumes "\<not> d_in_code_block s" "startswith l (asc ''[PARAGRAPH]'')"
  shows "docx_step s l =
     (let s1 = d_flush_table (d_close_list s); text0 = drop 11 l
      in if strip text0 \<noteq> [] then s1\<lparr>doc := add_clean_paragraph_to_docx (doc s1) text0\<rparr> else s1)"
proof -
  have k: "take 3 l = [91, 80, 65]" using assms(2) by (rule key_paragraph)
  have "l \<noteq> asc ''[CODE_BLOCK_START]''" "l \<noteq> asc ''[CODE_BLOCK_END]''"
    "\<not> startswith l (asc ''[HEADING_'')" "l \<noteq> asc ''[HORIZONTAL_RULE]''"
    "\<not> startswith l (asc ''[LIST_'')" "\<not> startswith l (asc ''[BLOCKQUOTE]'')"
    "\<not> startswith l (asc ''[TABLE_'')"
    using k by (simp_all add: not_tags)
  then show ?thesis using assms unfolding docx_step_def by simp
qed

lemma docx_step_blank:
  assumes "\<not> d_in_code_block s" "strip l = []"
  shows "docx_step s l = s"
proof -
  have "l \<noteq> asc ''[CODE_BLOCK_START]''" "l \<noteq> asc ''[CODE_BLOCK_END]''"
    "\<not> startswith l (asc ''[HEADING_'')" "l \<noteq> asc ''[HORIZONTAL_RULE]''"
    "\<not> startswith l (asc ''[LIST_'')" "\<not> startswith l (asc ''[BLOCKQUOTE]'')"
    "\<not> startswith l (asc ''[TABLE_'')" "\<not> startswith l (asc ''[PARAGRAPH]'')"
    using blank_key [OF assms(2)] by (simp_all add: not_tags)
  then show ?thesis using assms unfolding docx_step_def by simp
qed

section \<open>Table runs\<close>

lemma html_flush:
  assumes "flushing_block l" "in_table s" "\<not> in_code_block s"
  shows "(\<exists>post. html_lines (html_step s l) =
            html_lines s @ (if startswith l (asc ''[LIST_'') then [] else closing_tag (in_list s)) @
            [finalize_html_table (table_rows s)] @ post) \<and>
         \<not> in_table (html_step s l) \<and> table_rows (html_step s l) = []"
proof -
  consider (h) "startswith l (asc ''[HEADING_'')" | (r) "l = asc ''[HORIZONTAL_RULE]''"
    | (li) "startswith l (asc ''[LIST_'')" | (b) "startswith l (asc ''[BLOCKQUOTE]'')"
    | (p) "startswith l (asc ''[PARAGRAPH]'')"
    using assms(1) unfolding flushing_block_def by blast
  then show ?thesis
  proof cases
    case h
    then have "\<not> startswith l (asc ''[LIST_'')" using key_heading key_list by fastforce
    then show ?thesis using assms(2,3) h
      by (simp add: html_step_heading flush_table_def close_list_def emit_def Let_def
          split: option.split)
  next
    case r
    then have "\<not> startswith l (asc ''[LIST_'')" using key_rule key_list by fastforce
    then show ?thesis using assms(2,3) r
      by (simp add: html_step_rule flush_table_def close_list_def emit_def)
  next
    case li
    then show ?thesis using assms(2,3)
      by (simp add: html_step_list flush_table_def emit_def Let_def split: option.split)
  next
    case b
    then have "\<not> startswith l (asc ''[LIST_'')" using key_blockquote key_list by fastforce
    then show ?thesis using assms(2,3) b
      by (simp add: html_step_blockquote flush_table_def close_list_def emit_def)
  next
    case p
    then have "\<not> startswith l (asc ''[LIST_'')" using key_paragraph key_list by fastforce
    then show ?thesis using assms(2,3) p
      by (simp add: html_step_paragraph flush_table_def close_list_def emit_def Let_def)
  qed
qed

lemma docx_flush:
  assumes "flushing_block l" "d_in_table d" "\<not> d_in_code_block d"
  shows "(\<exists>post. doc (docx_step d l) = finalize_docx_table (doc d) (d_table_rows d) @ post) \<and>
         \<not> d_in_table (docx_step d l) \<and> d_table_rows (docx_step d l) = []"
proof -
  consider (h) "startswith l (asc ''[HEADING_'')" | (r) "l = asc ''[HORIZONTAL_RULE]''"
    | (li) "startswith l (asc ''[LIST_'')" | (b) "startswith l (asc ''[BLOCKQUOTE]'')"
    | (p) "startswith l (asc ''[PARAGRAPH]'')"
    using assms(1) unfolding flushing_block_def by blast
  then show ?thesis
  proof cases
    case h
    then show ?thesis using assms(2,3)
      by (simp add: docx_step_heading d_flush_table_def d_close_list_def add_heading_to_docx_def
          Let_def split: option.split)
  next
    case r
    then show ?thesis using assms(2,3)
      by (simp add: docx_step_rule d_flush_table_def d_close_list_def add_horizontal_rule_def Let_def)
  next
    case li
    then show ?thesis using assms(2,3)
      by (simp add: docx_step_list d_flush_table_def add_list_item_to_docx_def Let_def
          split: option.split)
  next
    case b
    then show ?thesis using assms(2,3)
      by (simp add: docx_step_blockquote d_flush_table_def d_close_list_def
          add_blockquote_to_docx_def Let_def)
  next
    case p
    then show ?thesis using assms(2,3)
      by (simp add: docx_step_paragraph d_flush_table_def d_close_list_def
          add_clean_paragraph_to_docx_def Let_def)
  qed
qed

section \<open>List containers are balanced\<close>

lemma no_tag: "take 2 x \<noteq> [60, 117] \<Longrightarrow> take 2 x \<noteq> [60, 111] \<Longrightarrow> take 2 x \<noteq> [60, 47] \<Longrightarrow>
  \<not> is_open_tag x \<and> \<not> is_close_tag x"
  by (auto simp: is_open_tag_def is_close_tag_def asc_def)

lemma balanced_emit:
  "\<not> is_open_tag x \<and> \<not> is_close_tag x \<Longrightarrow> list_balanced s \<Longrightarrow> list_balanced (emit x s)"
  by (simp add: list_balanced_def emit_def)

lemma table_no_tag: "\<not> is_open_tag (finalize_html_table rows) \<and> \<not> is_close_tag (finalize_html_table rows)"
  by (rule no_tag) (simp_all add: finalize_html_table_def asc_def split: list.split)

lemma balanced_flush: "list_balanced s \<Longrightarrow> list_balanced (flush_table s)"
  using table_no_tag by (simp add: list_balanced_def flush_table_def)

lemma in_list_flush: "in_list (flush_table s) = in_list s"
  by (simp add: flush_table_def)

lemma closing_tags:
  "closing_tag None = []" "closing_tag (Some (asc ''ul'')) = [asc ''</ul>'']"
  "closing_tag (Some (asc ''ol'')) = [asc ''</ol>'']"
  by (simp_all add: closing_tag_def asc_def)

lemma tag_facts:
  "is_close_tag (asc ''</ul>'')" "is_close_tag (asc ''</ol>'')"
  "\<not> is_open_tag (asc ''</ul>'')" "\<not> is_open_tag (asc ''</ol>'')"
  "is_open_tag (asc ''<'' @ asc ''ul'' @ asc ''>'')" "is_open_tag (asc ''<'' @ asc ''ol'' @ asc ''>'')"
  "\<not> is_close_tag (asc ''<'' @ asc ''ul'' @ asc ''>'')" "\<not> is_close_tag (asc ''<'' @ asc ''ol'' @ asc ''>'')"
  by (simp_all add: is_open_tag_def is_close_tag_def asc_def)

lemma balanced_close: "list_balanced s \<Longrightarrow> list_balanced (close_list s) \<and> in_list (close_list s) = None"
  by (auto simp: list_balanced_def close_list_def closing_tags tag_facts)

lemma balanced_open:
  assumes "list_balanced s" "t = asc ''ul'' \<or> t = asc ''ol''"
  shows "list_balanced (s\<lparr>html_lines := html_lines s @ closing_tag (in_list s) @ [asc ''<'' @ t @ asc ''>''],
                          in_list := Some t, list_level := lv\<rparr>)"
  using assms by (auto simp: list_balanced_def closing_tags tag_facts)

lemma balanced_other:
  "list_balanced (s\<lparr>in_code_block := b\<rparr>) = list_balanced s"
  "list_balanced (s\<lparr>code_lines := c\<rparr>) = list_balanced s"
  "list_balanced (s\<lparr>in_table := t\<rparr>) = list_balanced s"
  "list_balanced (s\<lparr>table_rows := r\<rparr>) = list_balanced s"
  by (simp_all add: list_balanced_def)

lemma emitted_no_tag:
  "\<not> is_open_tag (code_html ls) \<and> \<not> is_close_tag (code_html ls)"
  "\<not> is_open_tag (asc ''<h'' @ x) \<and> \<not> is_close_tag (asc ''<h'' @ x)"
  "\<not> is_open_tag (asc ''<hr>'') \<and> \<not> is_close_tag (asc ''<hr>'')"
  "\<not> is_open_tag (asc ''<li>'' @ x) \<and> \<not> is_close_tag (asc ''<li>'' @ x)"
  "\<not> is_open_tag (asc ''<blockquote><p>'' @ x) \<and> \<not> is_close_tag (asc ''<blockquote><p>'' @ x)"
  "\<not> is_open_tag (asc ''<p>'' @ x) \<and> \<not> is_close_tag (asc ''<p>'' @ x)"
  by (rule no_tag; simp add: code_html_def asc_def)+

lemma balanced_emit_eq:
  "\<not> is_open_tag x \<and> \<not> is_close_tag x \<Longrightarrow> list_balanced (emit x s) = list_balanced s"
  by (simp add: list_balanced_def emit_def)

lemma balanced_flush_eq: "list_balanced (flush_table s) = list_balanced s"
  using table_no_tag by (auto simp: list_balanced_def flush_table_def)

lemma balanced_close_list: "list_balanced s \<Longrightarrow> list_balanced (close_list s)"
  using balanced_close by blast

lemma in_list_close: "list_balanced s \<Longrightarrow> in_list (close_list s) = None"
  using balanced_close by blast

lemma balanced_step:
  assumes b: "list_balanced s"
  shows "list_balanced (html_step s l)"
proof -
  note r = balanced_other balanced_emit_eq emitted_no_tag balanced_flush_eq
    balanced_close_list [OF b] in_list_flush in_list_close [OF b]
  consider (cs) "l = asc ''[CODE_BLOCK_START]''" | (ce) "l = asc ''[CODE_BLOCK_END]''"
    | (cl) "in_code_block s" "l \<noteq> asc ''[CODE_BLOCK_START]''" "l \<noteq> asc ''[CODE_BLOCK_END]''"
    | (h) "\<not> in_code_block s" "startswith l (asc ''[HEADING_'')"
    | (ru) "\<not> in_code_block s" "l = asc ''[HORIZONTAL_RULE]''"
    | (li) "\<not> in_code_block s" "startswith l (asc ''[LIST_'')"
    | (bq) "\<not> in_code_block s" "startswith l (asc ''[BLOCKQUOTE]'')"
    | (t) "\<not> in_code_block s" "startswith l (asc ''[TABLE_'')"
    | (p) "\<not> in_code_block s" "startswith l (asc ''[PARAGRAPH]'')"
    | (o) "\<not> in_code_block s" "l \<noteq> asc ''[CODE_BLOCK_START]''" "l \<noteq> asc ''[CODE_BLOCK_END]''"
        "\<not> startswith l (asc ''[HEADING_'')" "l \<noteq> asc ''[HORIZONTAL_RULE]''"
        "\<not> startswith l (asc ''[LIST_'')" "\<not> startswith l (asc ''[BLOCKQUOTE]'')"
        "\<not> startswith l (asc ''[TABLE_'')" "\<not> startswith l (asc ''[PARAGRAPH]'')"
    by blast
  then show ?thesis
  proof cases
    case cs
    then show ?thesis using b by (simp add: html_step_code_start r)
  next
    case ce
    then show ?thesis using b by (simp add: html_step_code_end r)
  next
    case cl
    then show ?thesis using b by (simp add: html_step_code_line r)
  next
    case h
    then show ?thesis using b by (simp add: html_step_heading r Let_def split: option.split)
  next
    case ru
    then show ?thesis using b by (simp add: html_step_rule r)
  next
    case li
    have f: "list_balanced (flush_table s)" using b by (simp add: balanced_flush_eq)
    show ?thesis
    proof (cases "match_list_tag l")
      case None
      then show ?thesis using li f by (simp add: html_step_list)
    next
      case (Some m)
      obtain ty ds tx where m: "m = (ty, ds, tx)" by (cases m)
      show ?thesis using li Some m
        by (simp add: html_step_list Let_def balanced_emit_eq emitted_no_tag f balanced_open [OF f])
    qed
  next
    case bq
    then show ?thesis using b by (simp add: html_step_blockquote r)
  next
    case t
    then show ?thesis using b by (simp add: html_step_table r Let_def)
  next
    case p
    then show ?thesis using b by (simp add: html_step_paragraph r Let_def)
  next
    case o
    then show ?thesis using b by (simp add: html_step_other)
  qed
qed

lemma balanced_loop: "list_balanced s \<Longrightarrow> list_balanced (foldl html_step s ls)"
  by (induction ls arbitrary: s) (simp_all add: balanced_step)

lemma balanced_init: "list_balanced html_init"
  by (simp add: list_balanced_def html_init_def)

lemma balanced_finish:
  assumes "list_balanced s"
  shows "length (filter is_open_tag (html_finish s)) = length (filter is_close_tag (html_finish s))"
  using assms table_no_tag emitted_no_tag(1)
  by (auto simp: list_balanced_def html_finish_def closing_tags tag_facts)

section \<open>Runs of lines in the renderers\<close>

text \<open>Inside a code block every line that is not a marker line is buffered.\<close>

lemma html_code_lines:
  "in_code_block s \<Longrightarrow> \<forall>l\<in>set code. l \<noteq> asc ''[CODE_BLOCK_START]'' \<and> l \<noteq> asc ''[CODE_BLOCK_END]'' \<Longrightarrow>
   foldl html_step s code = s\<lparr>code_lines := code_lines s @ code\<rparr>"
proof (induction code arbitrary: s)
  case Nil
  then show ?case by simp
next
  case (Cons l code)
  then show ?case by (simp add: html_step_code_line)
qed

lemma docx_code_lines:
  "d_in_code_block s \<Longrightarrow> \<forall>l\<in>set code. l \<noteq> asc ''[CODE_BLOCK_START]'' \<and> l \<noteq> asc ''[CODE_BLOCK_END]'' \<Longrightarrow>
   foldl docx_step s code = s\<lparr>d_code_lines := d_code_lines s @ code\<rparr>"
proof (induction code arbitrary: s)
  case Nil
  then show ?case by simp
next
  case (Cons l code)
  then show ?case by (simp add: docx_step_code_line)
qed

lemma html_lines_close_list: "html_lines (close_list s) = html_lines s @ closing_tag (in_list s)"
  by (simp add: close_list_def)


lemma closing_after_close_list: "closing_tag (in_list (close_list s)) = []"
  by (simp add: close_list_def closing_tag_def)

lemma drop_tag_row: "drop 11 (asc ''[TABLE_ROW]'' @ r) = r"
proof -
  have "length (asc ''[TABLE_ROW]'') = 11" by (simp add: asc_def)
  then show ?thesis by simp
qed

lemma sw_tag_row: "startswith (asc ''[TABLE_ROW]'' @ r) (asc ''[TABLE_ROW]'')"
  by (simp add: startswith_def)

text \<open>A run of table rows is accumulated, in order, and nothing is emitted for it.\<close>

lemma html_row_lines:
  "\<not> in_code_block s \<Longrightarrow> in_table s \<Longrightarrow> closing_tag (in_list s) = [] \<Longrightarrow>
   foldl html_step s (map (\<lambda>r. asc ''[TABLE_ROW]'' @ r) rs) =
     s\<lparr>table_rows := table_rows s @
          map (\<lambda>r. map (\<lambda>cell. html_escape (strip cell)) (split_on 124 r)) rs\<rparr>"
proof (induction rs arbitrary: s)
  case Nil
  then show ?case by simp
next
  case (Cons r rs)
  have c: "close_list s = s" using Cons.prems(3) by (simp add: close_list_def)
  have st: "html_step s (asc ''[TABLE_ROW]'' @ r) =
      s\<lparr>table_rows := table_rows s @ [map (\<lambda>cell. html_escape (strip cell)) (split_on 124 r)]\<rparr>"
    using Cons.prems(1,2) by (simp only: html_step_row [OF Cons.prems(1) sw_tag_row] Let_def c drop_tag_row) simp
  show ?case using Cons.prems by (simp add: st Cons.IH)
qed

lemma html_row_run:
  assumes "\<not> in_code_block s" "rs \<noteq> []"
  shows "html_finish (foldl html_step s (map (\<lambda>r. asc ''[TABLE_ROW]'' @ r) rs)) =
     html_lines s @ closing_tag (in_list s) @
     [finalize_html_table ((if in_table s then table_rows s else []) @
        map (\<lambda>r. map (\<lambda>cell. html_escape (strip cell)) (split_on 124 r)) rs)]"
proof -
  obtain r rs' where rs: "rs = r # rs'" using assms(2) by (cases rs) auto
  let ?s1 = "(close_list s)\<lparr>in_table := True,
      table_rows := (if in_table s then table_rows s else []) @
        [map (\<lambda>cell. html_escape (strip cell)) (split_on 124 r)]\<rparr>"
  have nt: "in_table (close_list s) = in_table s" "table_rows (close_list s) = table_rows s"
    by (simp_all add: close_list_def)
  have st: "html_step s (asc ''[TABLE_ROW]'' @ r) = ?s1"
    by (simp only: html_step_row [OF assms(1) sw_tag_row] Let_def drop_tag_row) (simp add: nt)
  have p: "\<not> in_code_block ?s1" "in_table ?s1" "closing_tag (in_list ?s1) = []"
    using assms(1) by (simp_all add: closing_after_close_list) (simp add: close_list_def)
  have fl: "foldl html_step s (map (\<lambda>r. asc ''[TABLE_ROW]'' @ r) rs) =
     ?s1\<lparr>table_rows := table_rows ?s1 @
          map (\<lambda>r. map (\<lambda>cell. html_escape (strip cell)) (split_on 124 r)) rs'\<rparr>"
    unfolding rs using html_row_lines [OF p, of rs'] by (simp add: st)
  show ?thesis
    unfolding fl using assms(1) rs
    by (simp add: html_finish_def closing_after_close_list html_lines_close_list)
       (simp add: close_list_def)
qed

lemma docx_row_lines:
  "\<not> d_in_code_block s \<Longrightarrow> d_in_table s \<Longrightarrow> d_close_list s = s \<Longrightarrow>
   foldl docx_step s (map (\<lambda>r. asc ''[TABLE_ROW]'' @ r) rs) =
     s\<lparr>d_table_rows := d_table_rows s @ map (\<lambda>r. map strip (split_on 124 r)) rs\<rparr>"
proof (induction rs arbitrary: s)
  case Nil
  then show ?case by simp
next
  case (Cons r rs)
  let ?s1 = "s\<lparr>d_table_rows := d_table_rows s @ [map strip (split_on 124 r)]\<rparr>"
  have st: "docx_step s (asc ''[TABLE_ROW]'' @ r) = ?s1"
    using Cons.prems(1,2)
    by (simp only: docx_step_row [OF Cons.prems(1) sw_tag_row] Let_def Cons.prems(3) drop_tag_row) simp
  have "current_list_type (d_close_list s) = None \<or> current_list_type (d_close_list s) = Some []"
    by (cases "current_list_type s") (auto simp: d_close_list_def)
  then have "current_list_type s = None \<or> current_list_type s = Some []"
    by (simp only: Cons.prems(3))
  then have c: "d_close_list ?s1 = ?s1"
    by (auto simp: d_close_list_def)
  have "foldl docx_step ?s1 (map (\<lambda>r. asc ''[TABLE_ROW]'' @ r) rs) =
     ?s1\<lparr>d_table_rows := d_table_rows ?s1 @ map (\<lambda>r. map strip (split_on 124 r)) rs\<rparr>"
    using Cons.prems(1,2) by (intro Cons.IH c) simp_all
  then show ?case by (simp add: st)
qed

lemma docx_row_run:
  assumes "\<not> d_in_code_block s" "rs \<noteq> []"
  shows "docx_finish (foldl docx_step s (map (\<lambda>r. asc ''[TABLE_ROW]'' @ r) rs)) =
     finalize_docx_table (doc s)
       ((if d_in_table s then d_table_rows s else []) @ map (\<lambda>r. map strip (split_on 124 r)) rs)"
proof -
  obtain r rs' where rs: "rs = r # rs'" using assms(2) by (cases rs) auto
  let ?s1 = "(d_close_list s)\<lparr>d_in_table := True,
      d_table_rows := (if d_in_table s then d_table_rows s else []) @ [map strip (split_on 124 r)]\<rparr>"
  have nt: "d_in_table (d_close_list s) = d_in_table s" "d_table_rows (d_close_list s) = d_table_rows s"
    by (simp_all add: d_close_list_def)
  have st: "docx_step s (asc ''[TABLE_ROW]'' @ r) = ?s1"
    by (simp only: docx_step_row [OF assms(1) sw_tag_row] Let_def drop_tag_row) (simp add: nt)
  have p: "\<not> d_in_code_block ?s1" "d_in_table ?s1"
    using assms(1) by (simp_all add: d_close_list_def)
  have c: "d_close_list ?s1 = ?s1"
    by (cases "current_list_type s") (auto simp: d_close_list_def)
  have fl: "foldl docx_step s (map (\<lambda>r. asc ''[TABLE_ROW]'' @ r) rs) =
     ?s1\<lparr>d_table_rows := d_table_rows ?s1 @ map (\<lambda>r. map strip (split_on 124 r)) rs'\<rparr>"
    unfolding rs using docx_row_lines [OF p c, of rs'] by (simp add: st)
  show ?thesis
    unfolding fl using p rs by (simp add: docx_finish_def) (simp add: d_close_list_def)
qed

text \<open>A code block that is still open at the end of the stream.\<close>

lemma html_open_code:
  assumes "list_all (\<lambda>l. l \<noteq> asc ''[CODE_BLOCK_START]'' \<and> l \<noteq> asc ''[CODE_BLOCK_END]'') code" "code \<noteq> []"
  shows "html_finish (foldl html_step s (asc ''[CODE_BLOCK_START]'' # code)) =
     html_lines s @ closing_tag (in_list s) @
     (if in_table s then [finalize_html_table (table_rows s)] else []) @
     [asc ''<pre><code>'' @ html_escape (join [10] code) @ asc ''</code></pre>'']"
  using assms
  by (simp add: list_all_iff html_step_code_start html_code_lines html_finish_def code_html_def)

lemma docx_open_code:
  assumes "list_all (\<lambda>l. l \<noteq> asc ''[CODE_BLOCK_START]'' \<and> l \<noteq> asc ''[CODE_BLOCK_END]'') code" "code \<noteq> []"
  shows "docx_finish (foldl docx_step s (asc ''[CODE_BLOCK_START]'' # code)) =
     (if d_in_table s then finalize_docx_table (doc s) (d_table_rows s) else doc s) @
     [DCodeBlock (join [10] code)]"
  using assms
  by (simp add: list_all_iff docx_step_code_start docx_code_lines docx_finish_def add_code_block_to_docx_def)

text \<open>A run of list items of one kind, at level 0, that is still open at the end.\<close>

lemma digit_facts: "isdigit 48" "\<not> isdigit 93" "digit_val 48 = 0"
  by (simp_all add: isdigit_def digit_val_def nd_ranges_def)

lemma match_item_tag:
  "match_list_tag (asc ''[LIST_'' @ (if numbered then asc ''NUMBERED'' else asc ''BULLET'') @ asc ''_0]'' @ t) =
     Some (if numbered then asc ''NUMBERED'' else asc ''BULLET'', [48], takeWhile (\<lambda>c. c \<noteq> 10) t)"
  by (cases numbered) (simp_all add: match_list_tag_def startswith_def asc_def digit_facts)

lemma sw_item_tag:
  "startswith (asc ''[LIST_'' @ (if numbered then asc ''NUMBERED'' else asc ''BULLET'') @ asc ''_0]'' @ t)
     (asc ''[LIST_'')"
  by (simp add: startswith_def)

lemma html_item_step:
  assumes "\<not> in_code_block s" "\<not> in_table s"
  shows "html_step s (asc ''[LIST_'' @ (if numbered then asc ''NUMBERED'' else asc ''BULLET'') @ asc ''_0]'' @ t) =
     emit (asc ''<li>'' @ html_escape (takeWhile (\<lambda>c. c \<noteq> 10) t) @ asc ''</li>'')
       (let tag = (if numbered then asc ''ol'' else asc ''ul'')
        in if in_list s \<noteq> Some tag \<or> list_level s \<noteq> 0
           then s\<lparr>html_lines := html_lines s @ closing_tag (in_list s) @ [asc ''<'' @ tag @ asc ''>''],
                  in_list := Some tag, list_level := 0\<rparr>
           else s)"
proof -
  have f: "flush_table s = s" using assms(2) by (simp add: flush_table_def)
  have n: "asc ''NUMBERED'' \<noteq> asc ''BULLET''" by (simp add: asc_def)
  have z: "int_of_digits [48] = 0" by (simp add: int_of_digits_def digit_facts)
  show ?thesis
    using n by (simp only: html_step_list [OF assms(1) sw_item_tag] match_item_tag f Let_def z
        option.case prod.case) (auto simp: Let_def)
qed

lemma html_item_lines:
  assumes "\<not> in_code_block s" "\<not> in_table s"
    "in_list s = Some (if numbered then asc ''ol'' else asc ''ul'')" "list_level s = 0"
  shows "foldl html_step s
       (map (\<lambda>t. asc ''[LIST_'' @ (if numbered then asc ''NUMBERED'' else asc ''BULLET'') @ asc ''_0]'' @ t) ts) =
     s\<lparr>html_lines := html_lines s @
          map (\<lambda>t. asc ''<li>'' @ html_escape (takeWhile (\<lambda>c. c \<noteq> 10) t) @ asc ''</li>'') ts\<rparr>"
  using assms
proof (induction ts arbitrary: s)
  case Nil
  then show ?case by simp
next
  case (Cons t ts)
  have st: "html_step s (asc ''[LIST_'' @ (if numbered then asc ''NUMBERED'' else asc ''BULLET'') @ asc ''_0]'' @ t) =
     emit (asc ''<li>'' @ html_escape (takeWhile (\<lambda>c. c \<noteq> 10) t) @ asc ''</li>'') s"
    using Cons.prems by (simp add: html_item_step Let_def)
  show ?case using Cons.prems by (simp add: st Cons.IH emit_def)
qed

lemma html_item_run:
  assumes "\<not> in_code_block s" "\<not> in_table s" "in_list s = None" "ts \<noteq> []"
  shows "html_finish (foldl html_step s
       (map (\<lambda>t. asc ''[LIST_'' @ (if numbered then asc ''NUMBERED'' else asc ''BULLET'') @ asc ''_0]'' @ t) ts)) =
     html_lines s @ [asc ''<'' @ (if numbered then asc ''ol'' else asc ''ul'') @ asc ''>''] @
     map (\<lambda>t. asc ''<li>'' @ html_escape (takeWhile (\<lambda>c. c \<noteq> 10) t) @ asc ''</li>'') ts @
     [asc ''</'' @ (if numbered then asc ''ol'' else asc ''ul'') @ asc ''>'']"
proof -
  obtain t ts' where ts: "ts = t # ts'" using assms(4) by (cases ts) auto
  let ?tag = "if numbered then asc ''ol'' else asc ''ul''"
  let ?line = "\<lambda>t. asc ''[LIST_'' @ (if numbered then asc ''NUMBERED'' else asc ''BULLET'') @ asc ''_0]'' @ t"
  let ?li = "\<lambda>t. asc ''<li>'' @ html_escape (takeWhile (\<lambda>c. c \<noteq> 10) t) @ asc ''</li>''"
  let ?s1 = "s\<lparr>html_lines := html_lines s @ [asc ''<'' @ ?tag @ asc ''>'', ?li t],
                in_list := Some ?tag, list_level := 0\<rparr>"
  have st: "html_step s (?line t) = ?s1"
    using assms by (simp add: html_item_step Let_def closing_tag_def emit_def)
  have p: "\<not> in_code_block ?s1" "\<not> in_table ?s1" "in_list ?s1 = Some ?tag" "list_level ?s1 = 0"
    using assms by simp_all
  have fl: "foldl html_step s (map ?line ts) = ?s1\<lparr>html_lines := html_lines ?s1 @ map ?li ts'\<rparr>"
    unfolding ts using html_item_lines [OF p, of ts'] by (simp add: st)
  have ne: "?tag \<noteq> []" by (simp add: asc_def)
  show ?thesis
    unfolding fl using assms ne ts by (simp add: html_finish_def closing_tag_def)
qed

section \<open>Where the patterns of the cleaner cannot match\<close>

text \<open>A substitution whose pattern matches nowhere returns the text.\<close>

lemma re_sub_no_match:
  "(\<And>p c t. c \<in> set s \<Longrightarrow> pat p (c # t) = None) \<Longrightarrow> re_sub pat repl prev s = Inr s"
  by (induction s arbitrary: prev) auto

lemma pair_at_needs: "c \<noteq> d \<Longrightarrow> pair_at d (c # t) = None"
  by (simp add: pair_at_def split: list.split)

lemma italic_alt_needs: "c \<noteq> d \<Longrightarrow> italic_alt d p (c # t) = None"
  by (simp add: italic_alt_def split: list.split)

lemma bold_pat_needs: "c \<noteq> 42 \<Longrightarrow> c \<noteq> 95 \<Longrightarrow> bold_pat p (c # t) = None"
  by (simp add: bold_pat_def pair_at_needs)

lemma italic_pat_needs: "c \<noteq> 42 \<Longrightarrow> c \<noteq> 95 \<Longrightarrow> italic_pat p (c # t) = None"
  by (simp add: italic_pat_def italic_alt_needs)

lemma strike_pat_needs: "c \<noteq> 126 \<Longrightarrow> strike_pat p (c # t) = None"
  by (simp add: strike_pat_def pair_at_needs)

lemma code_pat_needs: "c \<noteq> 96 \<Longrightarrow> code_pat p (c # t) = None"
  by (simp add: code_pat_def Let_def)

lemma link_pat_needs: "c \<noteq> 91 \<Longrightarrow> link_pat p (c # t) = None"
  by (simp add: link_pat_def Let_def)

lemma unescape_no_delim: "d \<notin> set s \<Longrightarrow> unescape d s = s"
  by (induction d s rule: unescape.induct) auto

section \<open>List grouping\<close>

text \<open>
  C6. The intermediate representation of the code is a string of tagged lines; the
  list item of kind bullet, level 0 and text \<open>a\<close> is the line \<open>[LIST_BULLET_0]a\<close>. The
  lines \<open>- a\<close>, \<open>- b\<close>, \<open>1. c\<close> parse to three list items, two bullets and one numbered,
  all of level 0, and the Page Renderer closes the bullet container before it opens
  the numbered one: two containers, none inside the other.
\<close>

theorem list_grouping:
  "parse_markdown_structure (join [10] [asc ''- a'', asc ''- b'', asc ''1. c'']) =
     Inr (join [10] [asc ''[LIST_BULLET_0]a'', asc ''[LIST_BULLET_0]b'', asc ''[LIST_NUMBERED_0]c''])
   \<and> convert_structured_content_to_html
       (join [10] [asc ''[LIST_BULLET_0]a'', asc ''[LIST_BULLET_0]b'', asc ''[LIST_NUMBERED_0]c'']) =
     join [10] [asc ''<ul>'', asc ''<li>a</li>'', asc ''<li>b</li>'', asc ''</ul>'',
                asc ''<ol>'', asc ''<li>c</li>'', asc ''</ol>'']"
  by (simp add: str_defs clean_defs parse_defs html_defs)

theorem list_grouping_witness:
  "parse_markdown_structure (join [10] [asc ''- a'', asc ''- b'', asc ''1. c'']) \<noteq> Inl TypeError"
  using list_grouping by simp

section \<open>Totality of the parser\<close>

text \<open>
  C2. The parser is to return for every input. On the line \<open>a ****\<close> no pattern but the
  paragraph applies, the bold pattern of the Inline Cleaner matches \<open>****\<close> with an
  empty first group, \<open>match.group(1) or match.group(2)\<close> is \<open>None\<close>, and \<open>len(content)\<close>
  raises \<open>TypeError\<close>, which nothing in the parser catches.
\<close>

theorem parser_raises_on_empty_bold:
  "parse_markdown_structure (asc ''a ****'') = Inl TypeError"
  by (simp add: str_defs clean_defs parse_defs)

section \<open>Blank lines and blocks after table rows\<close>

text \<open>
  C1, as the claim states it, fails: between two table rows a blank line changes
  nothing in either renderer, so the rows before and after it are one rendered table.
  The parser hands the blank line on as an empty line.
\<close>

theorem blank_line_merges_tables:
  "parse_markdown_structure (join [10] [asc ''| A |'', [], asc ''| B |'']) =
     Inr (join [10] [asc ''[TABLE_ROW]A'', [], asc ''[TABLE_ROW]B''])
   \<and> convert_structured_content_to_html (join [10] [asc ''[TABLE_ROW]A'', [], asc ''[TABLE_ROW]B'']) =
     asc ''<table><thead><tr><th>A</th></tr></thead><tbody><tr><td>B</td></tr></tbody></table>''
   \<and> add_structured_content_to_docx [] (join [10] [asc ''[TABLE_ROW]A'', [], asc ''[TABLE_ROW]B'']) =
     [DTable [[\<lparr>cell_text = asc ''A'', cell_fill = Some (asc ''D9E2F3'')\<rparr>],
              [\<lparr>cell_text = asc ''B'', cell_fill = None\<rparr>]]]"
  by (simp add: str_defs clean_defs parse_defs html_defs docx_defs)

text \<open>
  C1, amended. Whenever a heading, horizontal rule, list item, blockquote or paragraph
  follows accumulated table rows (outside a code block), both renderers flush the
  accumulated rows as one table at that point and the run is over: the Page Renderer
  appends the one table of all the rows (after the closing tag of an open list, except
  before a list item), the Document Renderer appends the one table to the document. A
  blank line leaves the state of both renderers unchanged, so it does not end the run.
\<close>

theorem table_run_flushed_by_block:
  assumes "flushing_block l" "in_table s" "\<not> in_code_block s" "d_in_table d" "\<not> d_in_code_block d"
    "strip b = []"
  shows "(\<exists>post. html_lines (html_step s l) =
            html_lines s @ (if startswith l (asc ''[LIST_'') then [] else closing_tag (in_list s)) @
            [finalize_html_table (table_rows s)] @ post) \<and>
         \<not> in_table (html_step s l) \<and> table_rows (html_step s l) = [] \<and>
         (\<exists>post. doc (docx_step d l) = finalize_docx_table (doc d) (d_table_rows d) @ post) \<and>
         \<not> d_in_table (docx_step d l) \<and> d_table_rows (docx_step d l) = [] \<and>
         html_step s b = s \<and> docx_step d b = d"
  using html_flush [OF assms(1,2,3)] docx_flush [OF assms(1,4,5)]
    html_step_blank [OF assms(3,6)] docx_step_blank [OF assms(5,6)]
  by simp

theorem table_run_flushed_by_block_witness:
  "flushing_block (asc ''[PARAGRAPH]x'') \<and>
   in_table (html_init\<lparr>in_table := True, table_rows := [[asc ''A'']]\<rparr>) \<and>
   d_in_table ((docx_init [])\<lparr>d_in_table := True, d_table_rows := [[asc ''A'']]\<rparr>) \<and>
   strip [32] = [] \<and>
   table_rows (html_step (html_init\<lparr>in_table := True, table_rows := [[asc ''A'']]\<rparr>) (asc ''[PARAGRAPH]x'')) = [] \<and>
   d_table_rows (docx_step ((docx_init [])\<lparr>d_in_table := True, d_table_rows := [[asc ''A'']]\<rparr>)
     (asc ''[PARAGRAPH]x'')) = [] \<and>
   html_step (html_init\<lparr>in_table := True, table_rows := [[asc ''A'']]\<rparr>) [32] =
     html_init\<lparr>in_table := True, table_rows := [[asc ''A'']]\<rparr>"
proof -
  have f: "flushing_block (asc ''[PARAGRAPH]x'')"
    by (simp add: flushing_block_def startswith_def asc_def)
  have b: "strip [32] = []" by (simp add: strip_def lstrip_def rstrip_def isspace_def)
  show ?thesis
    using f b table_run_flushed_by_block [OF f, of "html_init\<lparr>in_table := True, table_rows := [[asc ''A'']]\<rparr>"
        "(docx_init [])\<lparr>d_in_table := True, d_table_rows := [[asc ''A'']]\<rparr>" "[32]"]
    by (simp add: html_init_def docx_init_def)
qed

section \<open>End of stream\<close>

text \<open>
  What the renderers return for a content whose lines end with an open code block,
  with a run of table rows, or with a run of list items.
\<close>

lemma html_stream_open_code:
  assumes "split_on 10 (strip content) = pre @ asc ''[CODE_BLOCK_START]'' # code" "code \<noteq> []"
    "list_all (\<lambda>l. l \<noteq> asc ''[CODE_BLOCK_START]'' \<and> l \<noteq> asc ''[CODE_BLOCK_END]'') code"
  shows "convert_structured_content_to_html content =
     join [10] (html_lines (foldl html_step html_init pre) @
       closing_tag (in_list (foldl html_step html_init pre)) @
       (if in_table (foldl html_step html_init pre)
        then [finalize_html_table (table_rows (foldl html_step html_init pre))] else []) @
       [asc ''<pre><code>'' @ html_escape (join [10] code) @ asc ''</code></pre>''])"
proof -
  have "convert_structured_content_to_html content =
      join [10] (html_finish (foldl html_step (foldl html_step html_init pre) (asc ''[CODE_BLOCK_START]'' # code)))"
    by (simp only: convert_structured_content_to_html_def assms(1) foldl_append)
  then show ?thesis by (simp only: html_open_code [OF assms(3) assms(2)])
qed

lemma docx_stream_open_code:
  assumes "split_on 10 (strip content) = pre @ asc ''[CODE_BLOCK_START]'' # code" "code \<noteq> []"
    "list_all (\<lambda>l. l \<noteq> asc ''[CODE_BLOCK_START]'' \<and> l \<noteq> asc ''[CODE_BLOCK_END]'') code"
  shows "add_structured_content_to_docx d0 content =
     (if d_in_table (foldl docx_step (docx_init d0) pre)
      then finalize_docx_table (doc (foldl docx_step (docx_init d0) pre))
             (d_table_rows (foldl docx_step (docx_init d0) pre))
      else doc (foldl docx_step (docx_init d0) pre)) @
     [DCodeBlock (join [10] code)]"
proof -
  have "add_structured_content_to_docx d0 content =
      docx_finish (foldl docx_step (foldl docx_step (docx_init d0) pre) (asc ''[CODE_BLOCK_START]'' # code))"
    by (simp only: add_structured_content_to_docx_def assms(1) foldl_append)
  then show ?thesis by (simp only: docx_open_code [OF assms(3) assms(2)])
qed

lemma html_stream_rows:
  assumes "split_on 10 (strip content) = pre @ map (\<lambda>r. asc ''[TABLE_ROW]'' @ r) rs" "rs \<noteq> []"
    "\<not> in_code_block (foldl html_step html_init pre)"
  shows "convert_structured_content_to_html content =
     join [10] (html_lines (foldl html_step html_init pre) @
       closing_tag (in_list (foldl html_step html_init pre)) @
       [finalize_html_table
          ((if in_table (foldl html_step html_init pre) then table_rows (foldl html_step html_init pre) else []) @
           map (\<lambda>r. map (\<lambda>cell. html_escape (strip cell)) (split_on 124 r)) rs)])"
proof -
  have "convert_structured_content_to_html content =
      join [10] (html_finish (foldl html_step (foldl html_step html_init pre)
        (map (\<lambda>r. asc ''[TABLE_ROW]'' @ r) rs)))"
    by (simp only: convert_structured_content_to_html_def assms(1) foldl_append)
  then show ?thesis by (simp only: html_row_run [OF assms(3) assms(2)])
qed

lemma docx_stream_rows:
  assumes "split_on 10 (strip content) = pre @ map (\<lambda>r. asc ''[TABLE_ROW]'' @ r) rs" "rs \<noteq> []"
    "\<not> d_in_code_block (foldl docx_step (docx_init d0) pre)"
  shows "add_structured_content_to_docx d0 content =
     finalize_docx_table (doc (foldl docx_step (docx_init d0) pre))
       ((if d_in_table (foldl docx_step (docx_init d0) pre)
         then d_table_rows (foldl docx_step (docx_init d0) pre) else []) @
        map (\<lambda>r. map strip (split_on 124 r)) rs)"
proof -
  have "add_structured_content_to_docx d0 content =
      docx_finish (foldl docx_step (foldl docx_step (docx_init d0) pre)
        (map (\<lambda>r. asc ''[TABLE_ROW]'' @ r) rs))"
    by (simp only: add_structured_content_to_docx_def assms(1) foldl_append)
  then show ?thesis by (simp only: docx_row_run [OF assms(3) assms(2)])
qed

lemma html_stream_items:
  assumes "split_on 10 (strip content) =
      pre @ map (\<lambda>t. asc ''[LIST_'' @ (if numbered then asc ''NUMBERED'' else asc ''BULLET'') @ asc ''_0]'' @ t) ts"
    "ts \<noteq> []" "\<not> in_code_block (foldl html_step html_init pre)"
    "\<not> in_table (foldl html_step html_init pre)" "in_list (foldl html_step html_init pre) = None"
  shows "convert_structured_content_to_html content =
     join [10] (html_lines (foldl html_step html_init pre) @
       [asc ''<'' @ (if numbered then asc ''ol'' else asc ''ul'') @ asc ''>''] @
       map (\<lambda>t. asc ''<li>'' @ html_escape (takeWhile (\<lambda>c. c \<noteq> 10) t) @ asc ''</li>'') ts @
       [asc ''</'' @ (if numbered then asc ''ol'' else asc ''ul'') @ asc ''>''])"
proof -
  have "convert_structured_content_to_html content =
      join [10] (html_finish (foldl html_step (foldl html_step html_init pre)
        (map (\<lambda>t. asc ''[LIST_'' @ (if numbered then asc ''NUMBERED'' else asc ''BULLET'') @ asc ''_0]'' @ t) ts)))"
    by (simp only: convert_structured_content_to_html_def assms(1) foldl_append)
  then show ?thesis by (simp only: html_item_run [OF assms(3) assms(4) assms(5) assms(2)])
qed

text \<open>
  C7. The two lines \<open>| A | B |\<close> and \<open>| 1 | 2 |\<close>, with nothing after them, parse to two
  table rows, and each renderer emits exactly one table for them at the end of the
  stream, with the header row A, B and the one body row 1, 2. A code block that is
  never closed, holding the line \<open>x < y\<close>, is returned by the Page Renderer as
  \<open><pre><code>x &lt; y</code></pre>\<close> and by the Document Renderer as one code block
  with the text \<open>x < y\<close>; two numbered list items with nothing after them are returned
  by the Page Renderer between \<open><ol>\<close> and \<open></ol>\<close>.

  More generally, for every content:

  \<^item> when its lines are any lines, then the line that starts a code block, then at
    least one line that is not a code block marker, both renderers return what the
    lines before the code block produced, then the closing tag of a list those lines
    left open (the Page Renderer; the Document Renderer has no list container), then
    the table of the rows they left open, and last the buffered lines as one code
    block: for the Page Renderer the escaped lines, joined by line feeds, between
    \<open><pre><code>\<close> and \<open></code></pre>\<close>;

  \<^item> when its lines are any lines that do not leave a code block open, then at least
    one table row, both renderers return what the lines before produced, then the
    closing tag of a list they left open (the Page Renderer), then exactly one table,
    of the rows they left open followed by the rows of the run;

  \<^item> when its lines are any lines that leave nothing open, then at least one list
    item of one kind at level 0, the Page Renderer returns what the lines before
    produced, then the opening tag of the list, one item for each line, and the
    closing tag of the list;

  \<^item> what each renderer returns is what its loop produced, followed by the closing tag
    of the list that is open after the last line (the Page Renderer), the table of the
    rows accumulated after the last line, and the code buffered after the last line if
    a code block is open and the buffer is not empty;

  \<^item> in the lines the Page Renderer returns, the tags that open a list container are
    as many as the tags that close one.
\<close>

theorem table_flush_at_end_of_stream:
  "parse_markdown_structure (join [10] [asc ''| A | B |'', asc ''| 1 | 2 |'']) =
     Inr (join [10] [asc ''[TABLE_ROW]A|B'', asc ''[TABLE_ROW]1|2''])
   \<and> convert_structured_content_to_html (join [10] [asc ''[TABLE_ROW]A|B'', asc ''[TABLE_ROW]1|2'']) =
     asc ''<table><thead><tr><th>A</th><th>B</th></tr></thead><tbody><tr><td>1</td><td>2</td></tr></tbody></table>''
   \<and> add_structured_content_to_docx [] (join [10] [asc ''[TABLE_ROW]A|B'', asc ''[TABLE_ROW]1|2'']) =
     [DTable [[\<lparr>cell_text = asc ''A'', cell_fill = Some (asc ''D9E2F3'')\<rparr>,
               \<lparr>cell_text = asc ''B'', cell_fill = Some (asc ''D9E2F3'')\<rparr>],
              [\<lparr>cell_text = asc ''1'', cell_fill = None\<rparr>, \<lparr>cell_text = asc ''2'', cell_fill = None\<rparr>]]]
   \<and> convert_structured_content_to_html (join [10] [asc ''[CODE_BLOCK_START]'', asc ''x < y'']) =
     asc ''<pre><code>x &lt; y</code></pre>''
   \<and> add_structured_content_to_docx [] (join [10] [asc ''[CODE_BLOCK_START]'', asc ''x < y'']) =
     [DCodeBlock (asc ''x < y'')]
   \<and> convert_structured_content_to_html (join [10] [asc ''[LIST_NUMBERED_0]a'', asc ''[LIST_NUMBERED_0]b'']) =
     join [10] [asc ''<ol>'', asc ''<li>a</li>'', asc ''<li>b</li>'', asc ''</ol>'']
   \<and> (\<forall>content pre code.
         split_on 10 (strip content) = pre @ asc ''[CODE_BLOCK_START]'' # code \<and> code \<noteq> [] \<and>
         list_all (\<lambda>l. l \<noteq> asc ''[CODE_BLOCK_START]'' \<and> l \<noteq> asc ''[CODE_BLOCK_END]'') code \<longrightarrow>
         convert_structured_content_to_html content =
           (let s = foldl html_step html_init pre
            in join [10] (html_lines s @ closing_tag (in_list s) @
                 (if in_table s then [finalize_html_table (table_rows s)] else []) @
                 [asc ''<pre><code>'' @ html_escape (join [10] code) @ asc ''</code></pre>''])))
   \<and> (\<forall>d0 content pre code.
         split_on 10 (strip content) = pre @ asc ''[CODE_BLOCK_START]'' # code \<and> code \<noteq> [] \<and>
         list_all (\<lambda>l. l \<noteq> asc ''[CODE_BLOCK_START]'' \<and> l \<noteq> asc ''[CODE_BLOCK_END]'') code \<longrightarrow>
         add_structured_content_to_docx d0 content =
           (let s = foldl docx_step (docx_init d0) pre
            in (if d_in_table s then finalize_docx_table (doc s) (d_table_rows s) else doc s) @
               [DCodeBlock (join [10] code)]))
   \<and> (\<forall>content pre rs.
         split_on 10 (strip content) = pre @ map (\<lambda>r. asc ''[TABLE_ROW]'' @ r) rs \<and> rs \<noteq> [] \<and>
         \<not> in_code_block (foldl html_step html_init pre) \<longrightarrow>
         convert_structured_content_to_html content =
           (let s = foldl html_step html_init pre
            in join [10] (html_lines s @ closing_tag (in_list s) @
                 [finalize_html_table ((if in_table s then table_rows s else []) @
                    map (\<lambda>r. map (\<lambda>cell. html_escape (strip cell)) (split_on 124 r)) rs)])))
   \<and> (\<forall>d0 content pre rs.
         split_on 10 (strip content) = pre @ map (\<lambda>r. asc ''[TABLE_ROW]'' @ r) rs \<and> rs \<noteq> [] \<and>
         \<not> d_in_code_block (foldl docx_step (docx_init d0) pre) \<longrightarrow>
         add_structured_content_to_docx d0 content =
           (let s = foldl docx_step (docx_init d0) pre
            in finalize_docx_table (doc s)
                 ((if d_in_table s then d_table_rows s else []) @ map (\<lambda>r. map strip (split_on 124 r)) rs)))
   \<and> (\<forall>content pre numbered ts.
         split_on 10 (strip content) =
           pre @ map (\<lambda>t. asc ''[LIST_'' @ (if numbered then asc ''NUMBERED'' else asc ''BULLET'') @ asc ''_0]'' @ t) ts \<and>
         ts \<noteq> [] \<and> \<not> in_code_block (foldl html_step html_init pre) \<and>
         \<not> in_table (foldl html_step html_init pre) \<and> in_list (foldl html_step html_init pre) = None \<longrightarrow>
         convert_structured_content_to_html content =
           join [10] (html_lines (foldl html_step html_init pre) @
             [asc ''<'' @ (if numbered then asc ''ol'' else asc ''ul'') @ asc ''>''] @
             map (\<lambda>t. asc ''<li>'' @ html_escape (takeWhile (\<lambda>c. c \<noteq> 10) t) @ asc ''</li>'') ts @
             [asc ''</'' @ (if numbered then asc ''ol'' else asc ''ul'') @ asc ''>'']))
   \<and> (\<forall>content. convert_structured_content_to_html content =
         (let s = foldl html_step html_init (split_on 10 (strip content))
          in join [10] (html_lines s @ closing_tag (in_list s) @
               (if in_table s then [finalize_html_table (table_rows s)] else []) @
               (if in_code_block s \<and> code_lines s \<noteq> []
                then [asc ''<pre><code>'' @ html_escape (join [10] (code_lines s)) @ asc ''</code></pre>'']
                else []))))
   \<and> (\<forall>d0 content. add_structured_content_to_docx d0 content =
         (let s = foldl docx_step (docx_init d0) (split_on 10 (strip content));
              d1 = (if d_in_table s then finalize_docx_table (doc s) (d_table_rows s) else doc s)
          in if d_in_code_block s \<and> d_code_lines s \<noteq> []
             then d1 @ [DCodeBlock (join [10] (d_code_lines s))] else d1))
   \<and> (\<forall>content.
        length (filter is_open_tag (html_finish (foldl html_step html_init (split_on 10 (strip content))))) =
        length (filter is_close_tag (html_finish (foldl html_step html_init (split_on 10 (strip content))))))"
proof -
  have c1: "parse_markdown_structure (join [10] [asc ''| A | B |'', asc ''| 1 | 2 |'']) =
     Inr (join [10] [asc ''[TABLE_ROW]A|B'', asc ''[TABLE_ROW]1|2''])"
    by (simp add: str_defs clean_defs parse_defs)
  have c2: "convert_structured_content_to_html (join [10] [asc ''[TABLE_ROW]A|B'', asc ''[TABLE_ROW]1|2'']) =
     asc ''<table><thead><tr><th>A</th><th>B</th></tr></thead><tbody><tr><td>1</td><td>2</td></tr></tbody></table>''"
    by (simp add: str_defs html_defs)
  have c3: "add_structured_content_to_docx [] (join [10] [asc ''[TABLE_ROW]A|B'', asc ''[TABLE_ROW]1|2'']) =
     [DTable [[\<lparr>cell_text = asc ''A'', cell_fill = Some (asc ''D9E2F3'')\<rparr>,
               \<lparr>cell_text = asc ''B'', cell_fill = Some (asc ''D9E2F3'')\<rparr>],
              [\<lparr>cell_text = asc ''1'', cell_fill = None\<rparr>, \<lparr>cell_text = asc ''2'', cell_fill = None\<rparr>]]]"
    by (simp add: str_defs docx_defs)
  have c4: "convert_structured_content_to_html (join [10] [asc ''[CODE_BLOCK_START]'', asc ''x < y'']) =
     asc ''<pre><code>x &lt; y</code></pre>''"
    by (simp add: str_defs html_defs)
  have c5: "add_structured_content_to_docx [] (join [10] [asc ''[CODE_BLOCK_START]'', asc ''x < y'']) =
     [DCodeBlock (asc ''x < y'')]"
    by (simp add: str_defs docx_defs)
  have c6: "convert_structured_content_to_html (join [10] [asc ''[LIST_NUMBERED_0]a'', asc ''[LIST_NUMBERED_0]b'']) =
     join [10] [asc ''<ol>'', asc ''<li>a</li>'', asc ''<li>b</li>'', asc ''</ol>'']"
    by (simp add: str_defs html_defs)
  have g1: "\<forall>content pre code.
         split_on 10 (strip content) = pre @ asc ''[CODE_BLOCK_START]'' # code \<and> code \<noteq> [] \<and>
         list_all (\<lambda>l. l \<noteq> asc ''[CODE_BLOCK_START]'' \<and> l \<noteq> asc ''[CODE_BLOCK_END]'') code \<longrightarrow>
         convert_structured_content_to_html content =
           (let s = foldl html_step html_init pre
            in join [10] (html_lines s @ closing_tag (in_list s) @
                 (if in_table s then [finalize_html_table (table_rows s)] else []) @
                 [asc ''<pre><code>'' @ html_escape (join [10] code) @ asc ''</code></pre>'']))"
    unfolding Let_def using html_stream_open_code by blast
  have g2: "\<forall>d0 content pre code.
         split_on 10 (strip content) = pre @ asc ''[CODE_BLOCK_START]'' # code \<and> code \<noteq> [] \<and>
         list_all (\<lambda>l. l \<noteq> asc ''[CODE_BLOCK_START]'' \<and> l \<noteq> asc ''[CODE_BLOCK_END]'') code \<longrightarrow>
         add_structured_content_to_docx d0 content =
           (let s = foldl docx_step (docx_init d0) pre
            in (if d_in_table s then finalize_docx_table (doc s) (d_table_rows s) else doc s) @
               [DCodeBlock (join [10] code)])"
    unfolding Let_def using docx_stream_open_code by blast
  have g3: "\<forall>content pre rs.
         split_on 10 (strip content) = pre @ map (\<lambda>r. asc ''[TABLE_ROW]'' @ r) rs \<and> rs \<noteq> [] \<and>
         \<not> in_code_block (foldl html_step html_init pre) \<longrightarrow>
         convert_structured_content_to_html content =
           (let s = foldl html_step html_init pre
            in join [10] (html_lines s @ closing_tag (in_list s) @
                 [finalize_html_table ((if in_table s then table_rows s else []) @
                    map (\<lambda>r. map (\<lambda>cell. html_escape (strip cell)) (split_on 124 r)) rs)]))"
    unfolding Let_def using html_stream_rows by blast
  have g4: "\<forall>d0 content pre rs.
         split_on 10 (strip content) = pre @ map (\<lambda>r. asc ''[TABLE_ROW]'' @ r) rs \<and> rs \<noteq> [] \<and>
         \<not> d_in_code_block (foldl docx_step (docx_init d0) pre) \<longrightarrow>
         add_structured_content_to_docx d0 content =
           (let s = foldl docx_step (docx_init d0) pre
            in finalize_docx_table (doc s)
                 ((if d_in_table s then d_table_rows s else []) @ map (\<lambda>r. map strip (split_on 124 r)) rs))"
    unfolding Let_def using docx_stream_rows by blast
  have g5: "\<forall>content pre numbered ts.
         split_on 10 (strip content) =
           pre @ map (\<lambda>t. asc ''[LIST_'' @ (if numbered then asc ''NUMBERED'' else asc ''BULLET'') @ asc ''_0]'' @ t) ts \<and>
         ts \<noteq> [] \<and> \<not> in_code_block (foldl html_step html_init pre) \<and>
         \<not> in_table (foldl html_step html_init pre) \<and> in_list (foldl html_step html_init pre) = None \<longrightarrow>
         convert_structured_content_to_html content =
           join [10] (html_lines (foldl html_step html_init pre) @
             [asc ''<'' @ (if numbered then asc ''ol'' else asc ''ul'') @ asc ''>''] @
             map (\<lambda>t. asc ''<li>'' @ html_escape (takeWhile (\<lambda>c. c \<noteq> 10) t) @ asc ''</li>'') ts @
             [asc ''</'' @ (if numbered then asc ''ol'' else asc ''ul'') @ asc ''>''])"
    using html_stream_items by blast
  have e1: "\<forall>content. convert_structured_content_to_html content =
         (let s = foldl html_step html_init (split_on 10 (strip content))
          in join [10] (html_lines s @ closing_tag (in_list s) @
               (if in_table s then [finalize_html_table (table_rows s)] else []) @
               (if in_code_block s \<and> code_lines s \<noteq> []
                then [asc ''<pre><code>'' @ html_escape (join [10] (code_lines s)) @ asc ''</code></pre>'']
                else [])))"
    by (simp add: convert_structured_content_to_html_def html_finish_def code_html_def Let_def)
  have e2: "\<forall>d0 content. add_structured_content_to_docx d0 content =
         (let s = foldl docx_step (docx_init d0) (split_on 10 (strip content));
              d1 = (if d_in_table s then finalize_docx_table (doc s) (d_table_rows s) else doc s)
          in if d_in_code_block s \<and> d_code_lines s \<noteq> []
             then d1 @ [DCodeBlock (join [10] (d_code_lines s))] else d1)"
    by (simp add: add_structured_content_to_docx_def docx_finish_def add_code_block_to_docx_def Let_def)
  have b: "\<forall>content.
        length (filter is_open_tag (html_finish (foldl html_step html_init (split_on 10 (strip content))))) =
        length (filter is_close_tag (html_finish (foldl html_step html_init (split_on 10 (strip content)))))"
    by (simp add: balanced_finish balanced_loop balanced_init)
  show ?thesis
    by (intro conjI) (rule c1 c2 c3 c4 c5 c6 g1 g2 g3 g4 g5 e1 e2 b)+
qed

theorem table_flush_at_end_of_stream_witness:
  "convert_structured_content_to_html
     (join [10] [asc ''[TABLE_ROW]A|B'', asc ''[CODE_BLOCK_START]'', asc ''x < y'', asc ''[TABLE_ROW]1|2'']) =
     join [10] [asc ''<table><thead><tr><th>A</th><th>B</th></tr></thead><tbody></tbody></table>'',
                asc ''<pre><code>x &lt; y'' @ [10] @ asc ''[TABLE_ROW]1|2</code></pre>'']
   \<and> add_structured_content_to_docx []
     (join [10] [asc ''[TABLE_ROW]A|B'', asc ''[CODE_BLOCK_START]'', asc ''x < y'']) =
     [DTable [[\<lparr>cell_text = asc ''A'', cell_fill = Some (asc ''D9E2F3'')\<rparr>,
               \<lparr>cell_text = asc ''B'', cell_fill = Some (asc ''D9E2F3'')\<rparr>]],
      DCodeBlock (asc ''x < y'')]
   \<and> convert_structured_content_to_html
     (join [10] [asc ''[PARAGRAPH]p'', asc ''[TABLE_ROW]A|B'', asc ''[TABLE_ROW]1|2'']) =
     join [10] [asc ''<p>p</p>'',
       asc ''<table><thead><tr><th>A</th><th>B</th></tr></thead><tbody><tr><td>1</td><td>2</td></tr></tbody></table>'']
   \<and> add_structured_content_to_docx []
     (join [10] [asc ''[HORIZONTAL_RULE]'', asc ''[TABLE_ROW]A|B'', asc ''[TABLE_ROW]1|2'']) =
     [DHorizontalRule,
      DTable [[\<lparr>cell_text = asc ''A'', cell_fill = Some (asc ''D9E2F3'')\<rparr>,
               \<lparr>cell_text = asc ''B'', cell_fill = Some (asc ''D9E2F3'')\<rparr>],
              [\<lparr>cell_text = asc ''1'', cell_fill = None\<rparr>, \<lparr>cell_text = asc ''2'', cell_fill = None\<rparr>]]]
   \<and> convert_structured_content_to_html
     (join [10] [asc ''[HORIZONTAL_RULE]'', asc ''[LIST_BULLET_0]a'', asc ''[LIST_BULLET_0]b'']) =
     join [10] [asc ''<hr>'', asc ''<ul>'', asc ''<li>a</li>'', asc ''<li>b</li>'', asc ''</ul>'']"
proof -
  note t = table_flush_at_end_of_stream
  note g1 = t [THEN conjunct2, THEN conjunct2, THEN conjunct2, THEN conjunct2, THEN conjunct2, THEN conjunct2,
      THEN conjunct1, rule_format]
  note g2 = t [THEN conjunct2, THEN conjunct2, THEN conjunct2, THEN conjunct2, THEN conjunct2, THEN conjunct2,
      THEN conjunct2, THEN conjunct1, rule_format]
  note g3 = t [THEN conjunct2, THEN conjunct2, THEN conjunct2, THEN conjunct2, THEN conjunct2, THEN conjunct2,
      THEN conjunct2, THEN conjunct2, THEN conjunct1, rule_format]
  note g4 = t [THEN conjunct2, THEN conjunct2, THEN conjunct2, THEN conjunct2, THEN conjunct2, THEN conjunct2,
      THEN conjunct2, THEN conjunct2, THEN conjunct2, THEN conjunct1, rule_format]
  note g5 = t [THEN conjunct2, THEN conjunct2, THEN conjunct2, THEN conjunct2, THEN conjunct2, THEN conjunct2,
      THEN conjunct2, THEN conjunct2, THEN conjunct2, THEN conjunct2, THEN conjunct1, rule_format]
  have w1: "convert_structured_content_to_html
     (join [10] [asc ''[TABLE_ROW]A|B'', asc ''[CODE_BLOCK_START]'', asc ''x < y'', asc ''[TABLE_ROW]1|2'']) =
     join [10] [asc ''<table><thead><tr><th>A</th><th>B</th></tr></thead><tbody></tbody></table>'',
                asc ''<pre><code>x &lt; y'' @ [10] @ asc ''[TABLE_ROW]1|2</code></pre>'']"
    by (subst g1 [of _ "[asc ''[TABLE_ROW]A|B'']" "[asc ''x < y'', asc ''[TABLE_ROW]1|2'']"])
       (simp_all add: str_defs html_defs)
  have w2: "add_structured_content_to_docx []
     (join [10] [asc ''[TABLE_ROW]A|B'', asc ''[CODE_BLOCK_START]'', asc ''x < y'']) =
     [DTable [[\<lparr>cell_text = asc ''A'', cell_fill = Some (asc ''D9E2F3'')\<rparr>,
               \<lparr>cell_text = asc ''B'', cell_fill = Some (asc ''D9E2F3'')\<rparr>]],
      DCodeBlock (asc ''x < y'')]"
    by (subst g2 [of _ "[asc ''[TABLE_ROW]A|B'']" "[asc ''x < y'']"])
       (simp_all add: str_defs docx_defs)
  have w3: "convert_structured_content_to_html
     (join [10] [asc ''[PARAGRAPH]p'', asc ''[TABLE_ROW]A|B'', asc ''[TABLE_ROW]1|2'']) =
     join [10] [asc ''<p>p</p>'',
       asc ''<table><thead><tr><th>A</th><th>B</th></tr></thead><tbody><tr><td>1</td><td>2</td></tr></tbody></table>'']"
    by (subst g3 [of _ "[asc ''[PARAGRAPH]p'']" "[asc ''A|B'', asc ''1|2'']"])
       (simp_all add: str_defs html_defs)
  have w4: "add_structured_content_to_docx []
     (join [10] [asc ''[HORIZONTAL_RULE]'', asc ''[TABLE_ROW]A|B'', asc ''[TABLE_ROW]1|2'']) =
     [DHorizontalRule,
      DTable [[\<lparr>cell_text = asc ''A'', cell_fill = Some (asc ''D9E2F3'')\<rparr>,
               \<lparr>cell_text = asc ''B'', cell_fill = Some (asc ''D9E2F3'')\<rparr>],
              [\<lparr>cell_text = asc ''1'', cell_fill = None\<rparr>, \<lparr>cell_text = asc ''2'', cell_fill = None\<rparr>]]]"
    by (subst g4 [of _ "[asc ''[HORIZONTAL_RULE]'']" "[asc ''A|B'', asc ''1|2'']"])
       (simp_all add: str_defs docx_defs)
  have w5: "convert_structured_content_to_html
     (join [10] [asc ''[HORIZONTAL_RULE]'', asc ''[LIST_BULLET_0]a'', asc ''[LIST_BULLET_0]b'']) =
     join [10] [asc ''<hr>'', asc ''<ul>'', asc ''<li>a</li>'', asc ''<li>b</li>'', asc ''</ul>'']"
    by (subst g5 [of _ "[asc ''[HORIZONTAL_RULE]'']" False "[asc ''a'', asc ''b'']"])
       (simp_all add: str_defs html_defs)
  show ?thesis by (intro conjI) (rule w1 w2 w3 w4 w5)+
qed

section \<open>Paragraphs of the document\<close>

text \<open>
  C9. \<open>_add_clean_paragraph_to_docx\<close> adds one paragraph, aligned left in every case.
  When the stripped text is longer than two characters and has an underscore first and
  an underscore last, the run is the text without these two characters and is italic;
  otherwise the run is the stripped text and is not italic. The Document Renderer
  calls it for every paragraph line whose text is not blank.
\<close>

theorem underscore_paragraph_italic:
  "add_clean_paragraph_to_docx d0 text0 =
     (let c = strip text0; wrapped = (2 < length c \<and> hd c = 95 \<and> last c = 95)
      in d0 @ [DParagraph (if wrapped then butlast (drop 1 c) else c) wrapped LEFT])
   \<and> (\<not> d_in_code_block d \<and> \<not> d_in_table d \<and> strip text0 \<noteq> [] \<longrightarrow>
        doc (docx_step d (asc ''[PARAGRAPH]'' @ text0)) = add_clean_paragraph_to_docx (doc d) text0)"
proof -
  define c where "c = strip text0"
  have s: "startswith c (asc ''_'') \<longleftrightarrow> c \<noteq> [] \<and> hd c = 95"
    by (cases c) (auto simp: startswith_def asc_def)
  have "c \<noteq> [] \<Longrightarrow> drop (length c - 1) c = [last c]"
    by (metis append_butlast_last_id append_eq_conv_conj length_butlast)
  then have e: "endswith c (asc ''_'') \<longleftrightarrow> c \<noteq> [] \<and> last c = 95"
    by (cases "c = []") (auto simp: endswith_def asc_def Suc_le_eq)
  have 1: "add_clean_paragraph_to_docx d0 text0 =
     (let c = strip text0; wrapped = (2 < length c \<and> hd c = 95 \<and> last c = 95)
      in d0 @ [DParagraph (if wrapped then butlast (drop 1 c) else c) wrapped LEFT])"
    using s e unfolding add_clean_paragraph_to_docx_def c_def by (auto simp: Let_def)
  have p: "startswith (asc ''[PARAGRAPH]'' @ text0) (asc ''[PARAGRAPH]'')"
    by (simp add: startswith_def)
  have "length (asc ''[PARAGRAPH]'') = 11" by (simp add: asc_def)
  then have dr: "drop 11 (asc ''[PARAGRAPH]'' @ text0) = text0" by simp
  have 2: "\<not> d_in_code_block d \<and> \<not> d_in_table d \<and> strip text0 \<noteq> [] \<longrightarrow>
        doc (docx_step d (asc ''[PARAGRAPH]'' @ text0)) = add_clean_paragraph_to_docx (doc d) text0"
  proof (intro impI, elim conjE)
    assume a: "\<not> d_in_code_block d" "\<not> d_in_table d" "strip text0 \<noteq> []"
    have "docx_step d (asc ''[PARAGRAPH]'' @ text0) =
       (let s1 = d_flush_table (d_close_list d); text1 = drop 11 (asc ''[PARAGRAPH]'' @ text0)
        in if strip text1 \<noteq> [] then s1\<lparr>doc := add_clean_paragraph_to_docx (doc s1) text1\<rparr> else s1)"
      by (rule docx_step_paragraph [OF a(1) p])
    then have "docx_step d (asc ''[PARAGRAPH]'' @ text0) =
       (let s1 = d_flush_table (d_close_list d)
        in s1\<lparr>doc := add_clean_paragraph_to_docx (doc s1) text0\<rparr>)"
      unfolding dr using a(3) by (simp add: Let_def)
    then show "doc (docx_step d (asc ''[PARAGRAPH]'' @ text0)) = add_clean_paragraph_to_docx (doc d) text0"
      using a(2) by (simp add: d_flush_table_def d_close_list_def Let_def)
  qed
  show ?thesis using 1 2 by blast
qed

theorem underscore_paragraph_italic_witness:
  "add_clean_paragraph_to_docx [] (asc ''_note_'') = [DParagraph (asc ''note'') True LEFT] \<and>
   add_clean_paragraph_to_docx [] (asc ''__'') = [DParagraph (asc ''__'') False LEFT] \<and>
   doc (docx_step (docx_init []) (asc ''[PARAGRAPH]'' @ asc ''_note_'')) = [DParagraph (asc ''note'') True LEFT]"
proof -
  have "strip (asc ''_note_'') \<noteq> []" by (simp add: str_defs)
  then show ?thesis
    using underscore_paragraph_italic [of "[]" "asc ''_note_''" "docx_init []"]
      underscore_paragraph_italic [of "[]" "asc ''__''" "docx_init []"]
    by (simp add: str_defs docx_init_def Let_def)
qed

section \<open>Table separators\<close>

lemma contains_single: "contains l [c] \<longleftrightarrow> c \<in> set l"
  by (induction l) (auto simp: startswith_def)

lemma rstrip_prefix: "\<exists>tr. l = rstrip l @ tr"
proof -
  have "rev l = takeWhile isspace (rev l) @ dropWhile isspace (rev l)" by simp
  then have "l = rev (dropWhile isspace (rev l)) @ rev (takeWhile isspace (rev l))"
    by (metis rev_append rev_rev_ident)
  then show ?thesis unfolding rstrip_def by blast
qed

text \<open>A line that starts with a pipe once stripped: white space, the pipe, the rest.\<close>

lemma table_line_shape:
  assumes "startswith (strip l) [124]"
  shows "\<exists>ws rest. l = ws @ 124 # rest \<and> (\<forall>c\<in>set ws. isspace c)"
proof -
  from assms obtain r where r: "strip l = 124 # r"
    by (cases "strip l") (auto simp: startswith_def)
  obtain tr where tr: "l = rstrip l @ tr" using rstrip_prefix by blast
  have "dropWhile isspace (rstrip l) = 124 # r" using r by (simp add: strip_def lstrip_def)
  then have "rstrip l = takeWhile isspace (rstrip l) @ 124 # r"
    by (metis takeWhile_dropWhile_id)
  then have "l = takeWhile isspace (rstrip l) @ 124 # (r @ tr)" using tr by (metis append_Cons append_assoc)
  moreover have "\<forall>c\<in>set (takeWhile isspace (rstrip l)). isspace c" by (auto dest: set_takeWhileD)
  ultimately show ?thesis by blast
qed

lemma not_isspace_124: "\<not> isspace 124"
  by (simp add: isspace_def)

lemma not_isdigit_124: "\<not> isdigit 124"
  by (simp add: isdigit_def nd_ranges_def)

lemma table_line_no_heading:
  assumes "\<forall>c\<in>set ws. isspace c"
  shows "match_heading (ws @ 124 # rest) = None"
proof -
  have "takeWhile (\<lambda>c. c = 35) (ws @ 124 # rest) = []"
    using assms by (cases ws) (auto simp: isspace_def)
  then show ?thesis by (simp add: match_heading_def)
qed

lemma table_line_no_rule: "strip l = 124 # r \<Longrightarrow> \<not> match_rule (strip l)"
  by (cases "r = []") (auto simp: match_rule_def Let_def)

lemma table_line_no_list:
  assumes "\<forall>c\<in>set ws. isspace c"
  shows "match_list (ws @ 124 # rest) = None"
proof -
  have "takeWhile isspace (ws @ 124 # rest) = ws"
    using assms by (simp add: not_isspace_124)
  then show ?thesis by (simp add: match_list_def not_isdigit_124)
qed

lemma table_line_no_quote:
  assumes "\<forall>c\<in>set ws. isspace c"
  shows "\<not> startswith (ws @ 124 # rest) [62]"
  using assms by (cases ws) (auto simp: startswith_def isspace_def)

lemma table_line_dispatch:
  assumes "startswith (strip l) [124]"
  shows "process_markdown_line l = process_table_line l"
proof -
  obtain ws rest where s: "l = ws @ 124 # rest" "\<forall>c\<in>set ws. isspace c"
    using table_line_shape [OF assms] by blast
  from assms obtain r where r: "strip l = 124 # r"
    by (cases "strip l") (auto simp: startswith_def)
  have "contains l [124]" using s(1) by (simp add: contains_single)
  moreover have "match_heading l = None" using s by (simp add: table_line_no_heading)
  moreover have "\<not> match_rule (strip l)" using r by (rule table_line_no_rule)
  moreover have "match_list l = None" using s by (simp add: table_line_no_list)
  moreover have "\<not> startswith l [62]" using s by (simp add: table_line_no_quote)
  moreover have "strip l \<noteq> []" using r by simp
  ultimately show ?thesis using assms unfolding process_markdown_line_def by simp
qed

text \<open>
  C8. A table line (one that starts with a pipe once stripped) whose raw content
  contains \<open>---\<close> becomes the line \<open>[TABLE_SEPARATOR]\<close>, whatever else it holds. Outside
  a code block both renderers skip that line: it adds no row to the accumulated rows,
  leaves the table run open or closed as it was, and emits nothing but the closing tag
  of a list that was still open (none is open inside a table run). So the separator
  between a header and a body is no rendered row: the three lines \<open>| A |\<close>,
  \<open>|---|\<close>, \<open>| 1 |\<close> give a table of the header A and the one body row 1.
\<close>

theorem separator_row_dropped:
  "(startswith (strip line) [124] \<and> contains line (asc ''---'') \<longrightarrow>
      process_markdown_line line = Inr (asc ''[TABLE_SEPARATOR]''))
   \<and> (\<not> in_code_block s \<longrightarrow>
        table_rows (html_step s (asc ''[TABLE_SEPARATOR]'')) = table_rows s \<and>
        in_table (html_step s (asc ''[TABLE_SEPARATOR]'')) = in_table s \<and>
        html_lines (html_step s (asc ''[TABLE_SEPARATOR]'')) = html_lines s @ closing_tag (in_list s))
   \<and> (\<not> d_in_code_block d \<longrightarrow>
        d_table_rows (docx_step d (asc ''[TABLE_SEPARATOR]'')) = d_table_rows d \<and>
        d_in_table (docx_step d (asc ''[TABLE_SEPARATOR]'')) = d_in_table d \<and>
        doc (docx_step d (asc ''[TABLE_SEPARATOR]'')) = doc d)
   \<and> parse_markdown_structure (join [10] [asc ''| A |'', asc ''|---|'', asc ''| 1 |'']) =
        Inr (join [10] [asc ''[TABLE_ROW]A'', asc ''[TABLE_SEPARATOR]'', asc ''[TABLE_ROW]1''])
   \<and> convert_structured_content_to_html
        (join [10] [asc ''[TABLE_ROW]A'', asc ''[TABLE_SEPARATOR]'', asc ''[TABLE_ROW]1'']) =
        asc ''<table><thead><tr><th>A</th></tr></thead><tbody><tr><td>1</td></tr></tbody></table>''
   \<and> add_structured_content_to_docx []
        (join [10] [asc ''[TABLE_ROW]A'', asc ''[TABLE_SEPARATOR]'', asc ''[TABLE_ROW]1'']) =
        [DTable [[\<lparr>cell_text = asc ''A'', cell_fill = Some (asc ''D9E2F3'')\<rparr>],
                 [\<lparr>cell_text = asc ''1'', cell_fill = None\<rparr>]]]"
proof -
  have 1: "startswith (strip line) [124] \<and> contains line (asc ''---'') \<longrightarrow>
      process_markdown_line line = Inr (asc ''[TABLE_SEPARATOR]'')"
    by (simp add: table_line_dispatch process_table_line_def)
  have 2: "\<not> in_code_block s \<longrightarrow>
        table_rows (html_step s (asc ''[TABLE_SEPARATOR]'')) = table_rows s \<and>
        in_table (html_step s (asc ''[TABLE_SEPARATOR]'')) = in_table s \<and>
        html_lines (html_step s (asc ''[TABLE_SEPARATOR]'')) = html_lines s @ closing_tag (in_list s)"
    by (simp add: html_step_separator html_lines_close_list) (simp add: close_list_def)
  have 3: "\<not> d_in_code_block d \<longrightarrow>
        d_table_rows (docx_step d (asc ''[TABLE_SEPARATOR]'')) = d_table_rows d \<and>
        d_in_table (docx_step d (asc ''[TABLE_SEPARATOR]'')) = d_in_table d \<and>
        doc (docx_step d (asc ''[TABLE_SEPARATOR]'')) = doc d"
    by (simp add: docx_step_separator d_close_list_def)
  have 4: "parse_markdown_structure (join [10] [asc ''| A |'', asc ''|---|'', asc ''| 1 |'']) =
        Inr (join [10] [asc ''[TABLE_ROW]A'', asc ''[TABLE_SEPARATOR]'', asc ''[TABLE_ROW]1''])"
    by (simp add: str_defs clean_defs parse_defs)
  have 5: "convert_structured_content_to_html
        (join [10] [asc ''[TABLE_ROW]A'', asc ''[TABLE_SEPARATOR]'', asc ''[TABLE_ROW]1'']) =
        asc ''<table><thead><tr><th>A</th></tr></thead><tbody><tr><td>1</td></tr></tbody></table>''"
    by (simp add: str_defs html_defs)
  have 6: "add_structured_content_to_docx []
        (join [10] [asc ''[TABLE_ROW]A'', asc ''[TABLE_SEPARATOR]'', asc ''[TABLE_ROW]1'']) =
        [DTable [[\<lparr>cell_text = asc ''A'', cell_fill = Some (asc ''D9E2F3'')\<rparr>],
                 [\<lparr>cell_text = asc ''1'', cell_fill = None\<rparr>]]]"
    by (simp add: str_defs docx_defs)
  show ?thesis using 1 2 3 4 5 6 by blast
qed

theorem separator_row_dropped_witness:
  "startswith (strip (asc ''| a --- b | c |'')) [124] \<and> contains (asc ''| a --- b | c |'') (asc ''---'') \<and>
   process_markdown_line (asc ''| a --- b | c |'') = Inr (asc ''[TABLE_SEPARATOR]'') \<and>
   table_rows (html_step (html_init\<lparr>in_table := True, table_rows := [[asc ''A'']]\<rparr>) (asc ''[TABLE_SEPARATOR]'')) =
     [[asc ''A'']] \<and>
   d_table_rows (docx_step ((docx_init [])\<lparr>d_in_table := True, d_table_rows := [[asc ''A'']]\<rparr>)
     (asc ''[TABLE_SEPARATOR]'')) = [[asc ''A'']]"
proof -
  have a: "startswith (strip (asc ''| a --- b | c |'')) [124]" by (simp add: str_defs)
  have b: "contains (asc ''| a --- b | c |'') (asc ''---'')" by (simp add: str_defs)
  show ?thesis
    using a b separator_row_dropped [of "asc ''| a --- b | c |''"
        "html_init\<lparr>in_table := True, table_rows := [[asc ''A'']]\<rparr>"
        "(docx_init [])\<lparr>d_in_table := True, d_table_rows := [[asc ''A'']]\<rparr>"]
    by (simp add: html_init_def docx_init_def)
qed

section \<open>Italic spans of one character\<close>

text \<open>What a match of the italic pattern looks like.\<close>

lemma italic_tail_shape:
  "italic_tail d r = Some g \<Longrightarrow>
   g \<noteq> [] \<and> last g \<noteq> d \<and> \<not> isspace (last g) \<and> take (length g + 1) r = g @ [d]"
proof (induction d r arbitrary: g rule: italic_tail.induct)
  case (1 d x y r)
  show ?case
  proof (cases "x \<noteq> d \<and> \<not> isspace x \<and> y = d \<and> (case r of [] \<Rightarrow> True | z # _ \<Rightarrow> z \<noteq> d)")
    case True
    then have "g = [x]" using "1.prems" by simp
    then show ?thesis using True by simp
  next
    case False
    then have n: "x \<noteq> 10" using "1.prems" by (auto split: if_splits)
    then obtain t where t: "italic_tail d (y # r) = Some t" and g: "g = x # t"
      using False "1.prems" by (auto split: if_splits)
    have ih: "t \<noteq> [] \<and> last t \<noteq> d \<and> \<not> isspace (last t) \<and> take (length t + 1) (y # r) = t @ [d]"
      using "1.IH" [OF False n t] .
    then have "take (length g + 1) (x # y # r) = g @ [d]" unfolding g by simp
    then show ?thesis using ih g by simp
  qed
qed simp_all

lemma italic_alt_shape:
  assumes "italic_alt d prev s = Some (g, n)"
  shows "2 \<le> length g \<and> n = length g + 2 \<and> hd g \<noteq> d \<and> \<not> isspace (hd g) \<and>
         last g \<noteq> d \<and> \<not> isspace (last g) \<and> take n s = d # g @ [d]"
proof -
  from assms obtain b r t where s: "s = d # b # r" and b: "b \<noteq> d" "\<not> isspace b"
    and t: "italic_tail d r = Some t" and g: "g = b # t" and n: "n = length t + 3"
    by (auto simp: italic_alt_def split: if_splits option.splits list.splits)
  have sh: "t \<noteq> []" "last t \<noteq> d" "\<not> isspace (last t)" "take (length t + 1) r = t @ [d]"
    using italic_tail_shape [OF t] by simp_all
  have "take n s = d # b # take (length t + 1) r" unfolding s n by (simp add: numeral_3_eq_3)
  then have "take n s = d # g @ [d]" using sh(4) g by simp
  moreover have "2 \<le> length g" using sh(1) g by (cases t) simp_all
  ultimately show ?thesis using b sh g n by simp
qed

text \<open>No match of the italic tail without a closing delimiter.\<close>

lemma italic_tail_none: "d \<notin> set (tl s) \<Longrightarrow> italic_tail d s = None"
  by (induction d s rule: italic_tail.induct) auto

text \<open>
  C10, as the claim states it, fails: inside a longer text the delimiters of a span of
  one character can be taken by a longer italic match. In \<open>*x* and *y*\<close> the lazy
  group runs from \<open>x\<close> to \<open>y\<close>, over the asterisks between them, and the first and the
  last asterisk are removed.
\<close>

theorem single_char_span_changed_in_context:
  "clean_inline_markdown (asc ''*x* and *y*'') = Inr (asc ''x* and *y'')"
  by (simp add: str_defs clean_defs)

text \<open>The five substitutions leave a span of one character as it is.\<close>

lemma span_bold: "re_sub bold_pat replace_bold None [d, c, d] = Inr [d, c, d]"
  by (simp add: bold_pat_def pair_at_def)

lemma span_italic:
  "d = 42 \<or> d = 95 \<Longrightarrow> re_sub italic_pat replace_italic None [d, c, d] = Inr [d, c, d]"
  by (auto simp: italic_pat_def italic_alt_def)

lemma span_strike:
  "d = 42 \<or> d = 95 \<Longrightarrow> re_sub strike_pat replace_strike None [d, c, d] = Inr [d, c, d]"
  by (auto simp: strike_pat_def pair_at_def)

lemma span_code:
  "d = 42 \<or> d = 95 \<Longrightarrow> re_sub code_pat replace_code None [d, c, d] = Inr [d, c, d]"
  by (auto simp: code_pat_def startswith_def)

lemma span_link:
  "d = 42 \<or> d = 95 \<Longrightarrow> re_sub link_pat replace_links None [d, c, d] = Inr [d, c, d]"
  by (auto simp: link_pat_def startswith_def)

lemma space_facts: "\<not> isspace 42" "\<not> isspace 95" "isspace 32"
  by (simp_all add: isspace_def)

lemma span_rest:
  assumes "d = 42 \<or> d = 95" "c \<noteq> 60" "c \<noteq> 62" "c \<noteq> 92" "isspace c \<longrightarrow> c = 32"
  shows "strip (collapse_ws (unescape 95 (unescape 42 (filter (\<lambda>c. c \<noteq> 60 \<and> c \<noteq> 62) [d, c, d])))) =
         [d, c, d]"
proof -
  have f: "filter (\<lambda>c. c \<noteq> 60 \<and> c \<noteq> 62) [d, c, d] = [d, c, d]" using assms by auto
  have u1: "unescape 42 [d, c, d] = [d, c, d]" using assms by auto
  have u2: "unescape 95 [d, c, d] = [d, c, d]" using assms by auto
  have nd: "\<not> isspace d" using assms(1) space_facts by auto
  have w: "collapse_ws [d, c, d] = [d, c, d]" using nd assms(5) by (cases "isspace c") auto
  have s: "strip [d, c, d] = [d, c, d]" using nd by (simp add: strip_def lstrip_def rstrip_def)
  show ?thesis by (simp only: f u1 u2 w s)
qed

lemma clean_span:
  assumes d: "d = 42 \<or> d = 95" and c: "c \<noteq> 60" "c \<noteq> 62" "c \<noteq> 92" "isspace c \<longrightarrow> c = 32"
  shows "clean_inline_markdown [d, c, d] = Inr [d, c, d]"
proof -
  note st = span_bold [of d c] span_italic [OF d, of c] span_strike [OF d, of c]
    span_code [OF d, of c] span_link [OF d, of c] span_rest [OF d c]
  show ?thesis unfolding clean_inline_markdown_def
    by (simp only: st ebind_def sum.case)
qed

text \<open>
  A substitution over a text of three parts: a prefix where the pattern matches
  nowhere, a span \<open>d c d\<close> at whose three positions it does not match, and a rest
  where it matches nowhere.
\<close>

lemma re_sub_prefix:
  assumes "\<And>p x t. x \<in> set pre \<Longrightarrow> pat p (x # t) = None"
  shows "re_sub pat repl prev (pre @ rest) =
     (case re_sub pat repl (if pre = [] then prev else Some (last pre)) rest of
        Inl e \<Rightarrow> Inl e | Inr r \<Rightarrow> Inr (pre @ r))"
  using assms
proof (induction pre arbitrary: prev)
  case Nil
  then show ?case by (simp split: sum.split)
next
  case (Cons x pre)
  have n: "pat prev (x # pre @ rest) = None" using Cons.prems by simp
  have "re_sub pat repl (Some x) (pre @ rest) =
     (case re_sub pat repl (if pre = [] then Some x else Some (last pre)) rest of
        Inl e \<Rightarrow> Inl e | Inr r \<Rightarrow> Inr (pre @ r))"
    using Cons.IH [of "Some x"] Cons.prems by simp
  then show ?case using n by (simp split: sum.split)
qed

lemma re_sub_span:
  assumes pre: "\<And>p x t. x \<in> set pre \<Longrightarrow> pat p (x # t) = None"
    and post: "\<And>p x t. x \<in> set post \<Longrightarrow> pat p (x # t) = None"
    and s1: "\<And>p. pat p (d # c # d # post) = None"
    and s2: "\<And>p. pat p (c # d # post) = None"
    and s3: "\<And>p. pat p (d # post) = None"
  shows "re_sub pat repl prev (pre @ [d, c, d] @ post) = Inr (pre @ [d, c, d] @ post)"
proof -
  have "re_sub pat repl (Some d) post = Inr post" using post by (rule re_sub_no_match)
  then have "\<And>p. re_sub pat repl p (d # c # d # post) = Inr (d # c # d # post)"
    using s1 s2 s3 by simp
  then show ?thesis using re_sub_prefix [of pre pat repl prev "d # c # d # post", OF pre] by simp
qed

lemma bold_span:
  assumes "d = 42 \<or> d = 95" "c \<noteq> 42" "c \<noteq> 95"
    "42 \<notin> set pre" "95 \<notin> set pre" "42 \<notin> set post" "95 \<notin> set post"
  shows "re_sub bold_pat replace_bold prev (pre @ [d, c, d] @ post) = Inr (pre @ [d, c, d] @ post)"
proof (rule re_sub_span)
  show "\<And>p x t. x \<in> set pre \<Longrightarrow> bold_pat p (x # t) = None"
    using assms by (intro bold_pat_needs) auto
  show "\<And>p x t. x \<in> set post \<Longrightarrow> bold_pat p (x # t) = None"
    using assms by (intro bold_pat_needs) auto
  show "\<And>p. bold_pat p (d # c # d # post) = None"
    using assms by (auto simp: bold_pat_def pair_at_def)
  show "\<And>p. bold_pat p (c # d # post) = None"
    using assms by (simp add: bold_pat_needs)
  show "\<And>p. bold_pat p (d # post) = None"
    using assms by (cases post) (auto simp: bold_pat_def pair_at_def)
qed

lemma italic_span:
  assumes "d = 42 \<or> d = 95" "c \<noteq> 42" "c \<noteq> 95"
    "42 \<notin> set pre" "95 \<notin> set pre" "42 \<notin> set post" "95 \<notin> set post"
  shows "re_sub italic_pat replace_italic prev (pre @ [d, c, d] @ post) = Inr (pre @ [d, c, d] @ post)"
proof (rule re_sub_span)
  show "\<And>p x t. x \<in> set pre \<Longrightarrow> italic_pat p (x # t) = None"
    using assms by (intro italic_pat_needs) auto
  show "\<And>p x t. x \<in> set post \<Longrightarrow> italic_pat p (x # t) = None"
    using assms by (intro italic_pat_needs) auto
  have t: "italic_tail 42 (d # post) = None" "italic_tail 95 (d # post) = None"
    using assms by (simp_all add: italic_tail_none)
  show "\<And>p. italic_pat p (d # c # d # post) = None"
    using assms t by (auto simp: italic_pat_def italic_alt_def)
  show "\<And>p. italic_pat p (c # d # post) = None"
    using assms by (simp add: italic_pat_needs)
  have u: "\<And>r. post = hd post # r \<Longrightarrow> italic_tail 42 r = None \<and> italic_tail 95 r = None"
  proof -
    fix r assume "post = hd post # r"
    then have "set (tl r) \<subseteq> set post" by (metis list.set_sel(2) set_subset_Cons subset_trans Nil_tl subsetI empty_iff empty_set)
    then show "italic_tail 42 r = None \<and> italic_tail 95 r = None"
      using assms by (auto intro!: italic_tail_none)
  qed
  show "\<And>p. italic_pat p (d # post) = None"
    using assms u by (cases post) (auto simp: italic_pat_def italic_alt_def split: option.splits)
qed

lemma unescape_no_backslash: "92 \<notin> set s \<Longrightarrow> unescape d s = s"
  by (induction d s rule: unescape.induct) auto

lemma clean_span_in_plain_text:
  assumes d: "d = 42 \<or> d = 95"
    and p: "\<forall>x\<in>set pre. \<not> md_delim x" "\<not> md_delim c" "\<forall>x\<in>set post. \<not> md_delim x"
  shows "clean_inline_markdown (pre @ [d, c, d] @ post) = Inr (strip (collapse_ws (pre @ [d, c, d] @ post)))"
proof -
  let ?t = "pre @ [d, c, d] @ post"
  have nd: "\<And>x. \<not> md_delim x \<Longrightarrow>
      x \<noteq> 42 \<and> x \<noteq> 95 \<and> x \<noteq> 126 \<and> x \<noteq> 96 \<and> x \<noteq> 91 \<and> x \<noteq> 60 \<and> x \<noteq> 62 \<and> x \<noteq> 92"
    by (simp add: md_delim_def)
  have m: "md_delim 42" "md_delim 95" by (simp_all add: md_delim_def)
  have e: "c \<noteq> 42" "c \<noteq> 95" "42 \<notin> set pre" "95 \<notin> set pre" "42 \<notin> set post" "95 \<notin> set post"
    using p m by blast+
  have a: "x \<noteq> 126 \<and> x \<noteq> 96 \<and> x \<noteq> 91 \<and> x \<noteq> 60 \<and> x \<noteq> 62 \<and> x \<noteq> 92" if "x \<in> set ?t" for x
  proof -
    from that consider "x \<in> set pre" | "x = d" | "x = c" | "x \<in> set post" by auto
    then show ?thesis
    proof cases
      case 1 then show ?thesis using p(1) nd by blast
    next
      case 2 then show ?thesis using d by auto
    next
      case 3 then show ?thesis using p(2) nd by blast
    next
      case 4 then show ?thesis using p(3) nd by blast
    qed
  qed
  have b: "re_sub bold_pat replace_bold None ?t = Inr ?t" using d e by (rule bold_span)
  have i: "re_sub italic_pat replace_italic None ?t = Inr ?t" using d e by (rule italic_span)
  have s: "re_sub strike_pat replace_strike None ?t = Inr ?t"
    by (rule re_sub_no_match) (simp add: a strike_pat_needs)
  have k: "re_sub code_pat replace_code None ?t = Inr ?t"
    by (rule re_sub_no_match) (simp add: a code_pat_needs)
  have l: "re_sub link_pat replace_links None ?t = Inr ?t"
    by (rule re_sub_no_match) (simp add: a link_pat_needs)
  have f: "filter (\<lambda>c. c \<noteq> 60 \<and> c \<noteq> 62) ?t = ?t" using a by (simp add: filter_id_conv)
  have nb: "92 \<notin> set ?t" using a by blast
  have u1: "unescape 42 ?t = ?t" using nb by (rule unescape_no_backslash)
  have u2: "unescape 95 ?t = ?t" using nb by (rule unescape_no_backslash)
  show ?thesis unfolding clean_inline_markdown_def
    by (simp only: b i s k l f u1 u2 ebind_def sum.case)
qed

text \<open>
  C10, amended. For every input text, a match of the italic pattern at any position
  is one delimiter (an asterisk or an underscore), then a content of at least two
  characters whose first and last characters are neither that delimiter nor white
  space, then the same delimiter, and the content is what replaces the match; so the
  three characters of a span whose content is a single character (\<open>*x*\<close>, \<open>_x_\<close>)
  are never a match of the italic pattern. For every text before and every text after
  such a span that hold no asterisk and no underscore, the character being neither,
  the bold pass and the italic pass return the whole text unchanged. For every text
  before and every text after the span that, like the character, hold no markdown
  delimiter (asterisk, underscore, tilde, backquote, square bracket, angle bracket,
  backslash), the Inline Cleaner returns the whole text with nothing but its white
  space collapsed and trimmed. A text that is just the span is returned as it is,
  unless the character is an angle bracket, a backslash or white space other than the
  space.
\<close>

theorem single_char_span_unchanged:
  "(c \<noteq> 60 \<and> c \<noteq> 62 \<and> c \<noteq> 92 \<and> (isspace c \<longrightarrow> c = 32) \<longrightarrow>
      clean_inline_markdown [42, c, 42] = Inr [42, c, 42] \<and>
      clean_inline_markdown [95, c, 95] = Inr [95, c, 95])
   \<and> (italic_pat prev s = Some ((g1, g2), n) \<longrightarrow>
        (\<exists>d content. (d = 42 \<or> d = 95) \<and> replace_italic (g1, g2) = Inr content \<and>
           2 \<le> length content \<and> n = length content + 2 \<and>
           hd content \<noteq> d \<and> \<not> isspace (hd content) \<and>
           last content \<noteq> d \<and> \<not> isspace (last content) \<and>
           take n s = d # content @ [d]))
   \<and> ((d = 42 \<or> d = 95) \<and> c \<noteq> 42 \<and> c \<noteq> 95 \<and>
       42 \<notin> set pre \<and> 95 \<notin> set pre \<and> 42 \<notin> set post \<and> 95 \<notin> set post \<longrightarrow>
        re_sub bold_pat replace_bold None (pre @ [d, c, d] @ post) = Inr (pre @ [d, c, d] @ post) \<and>
        re_sub italic_pat replace_italic None (pre @ [d, c, d] @ post) = Inr (pre @ [d, c, d] @ post))
   \<and> ((d = 42 \<or> d = 95) \<and> list_all (\<lambda>x. \<not> md_delim x) (pre @ [c] @ post) \<longrightarrow>
        clean_inline_markdown (pre @ [d, c, d] @ post) =
          Inr (strip (collapse_ws (pre @ [d, c, d] @ post))))"
proof -
  have 1: "c \<noteq> 60 \<and> c \<noteq> 62 \<and> c \<noteq> 92 \<and> (isspace c \<longrightarrow> c = 32) \<longrightarrow>
      clean_inline_markdown [42, c, 42] = Inr [42, c, 42] \<and>
      clean_inline_markdown [95, c, 95] = Inr [95, c, 95]"
    by (simp add: clean_span)
  have 2: "italic_pat prev s = Some ((g1, g2), n) \<longrightarrow>
        (\<exists>d content. (d = 42 \<or> d = 95) \<and> replace_italic (g1, g2) = Inr content \<and>
           2 \<le> length content \<and> n = length content + 2 \<and>
           hd content \<noteq> d \<and> \<not> isspace (hd content) \<and>
           last content \<noteq> d \<and> \<not> isspace (last content) \<and>
           take n s = d # content @ [d])"
  proof
    assume m: "italic_pat prev s = Some ((g1, g2), n)"
    then consider g where "italic_alt 42 prev s = Some (g, n)" "g1 = Some g" "g2 = None"
      | g where "italic_alt 95 prev s = Some (g, n)" "g1 = None" "g2 = Some g"
      by (auto simp: italic_pat_def split: option.splits)
    then show "\<exists>d content. (d = 42 \<or> d = 95) \<and> replace_italic (g1, g2) = Inr content \<and>
           2 \<le> length content \<and> n = length content + 2 \<and>
           hd content \<noteq> d \<and> \<not> isspace (hd content) \<and>
           last content \<noteq> d \<and> \<not> isspace (last content) \<and>
           take n s = d # content @ [d]"
    proof cases
      case 1
      have "replace_italic (g1, g2) = Inr g"
        using 1 italic_alt_shape [OF 1(1)] by (cases g) (auto simp: replace_italic_def py_or_def)
      then show ?thesis using italic_alt_shape [OF 1(1)] by blast
    next
      case 2
      have "replace_italic (g1, g2) = Inr g"
        using 2 italic_alt_shape [OF 2(1)] by (cases g) (auto simp: replace_italic_def py_or_def)
      then show ?thesis using italic_alt_shape [OF 2(1)] by blast
    qed
  qed
  have 3: "(d = 42 \<or> d = 95) \<and> c \<noteq> 42 \<and> c \<noteq> 95 \<and>
       42 \<notin> set pre \<and> 95 \<notin> set pre \<and> 42 \<notin> set post \<and> 95 \<notin> set post \<longrightarrow>
        re_sub bold_pat replace_bold None (pre @ [d, c, d] @ post) = Inr (pre @ [d, c, d] @ post) \<and>
        re_sub italic_pat replace_italic None (pre @ [d, c, d] @ post) = Inr (pre @ [d, c, d] @ post)"
    using bold_span [of d c pre post None] italic_span [of d c pre post None] by blast
  have 4: "(d = 42 \<or> d = 95) \<and> list_all (\<lambda>x. \<not> md_delim x) (pre @ [c] @ post) \<longrightarrow>
        clean_inline_markdown (pre @ [d, c, d] @ post) =
          Inr (strip (collapse_ws (pre @ [d, c, d] @ post)))"
    using clean_span_in_plain_text [of d pre c post] by (simp add: list_all_iff)
  show ?thesis using 1 2 3 4 by blast
qed

theorem single_char_span_unchanged_witness:
  "clean_inline_markdown (asc ''*x*'') = Inr (asc ''*x*'') \<and>
   clean_inline_markdown (asc ''_x_'') = Inr (asc ''_x_'') \<and>
   clean_inline_markdown (asc ''a *x* b'') = Inr (asc ''a *x* b'') \<and>
   re_sub italic_pat replace_italic None (asc ''[a](b) _x_ ~~c~~'') = Inr (asc ''[a](b) _x_ ~~c~~'') \<and>
   italic_pat None (asc ''*x* and *y*'') = Some ((Some (asc ''x* and *y''), None), 11) \<and>
   (\<exists>d content. (d = 42 \<or> d = 95) \<and> replace_italic (Some (asc ''x* and *y''), None) = Inr content \<and>
      2 \<le> length content \<and> 11 = length content + 2 \<and>
      hd content \<noteq> d \<and> \<not> isspace (hd content) \<and> last content \<noteq> d \<and> \<not> isspace (last content) \<and>
      take 11 (asc ''*x* and *y*'') = d # content @ [d])"
proof -
  have n: "\<not> isspace 120" by (simp add: isspace_def)
  have p: "list_all (\<lambda>x. \<not> md_delim x) (asc ''a '' @ [120] @ asc '' b'')"
    by (simp add: asc_def md_delim_def)
  have w: "strip (collapse_ws (asc ''a *x* b'')) = asc ''a *x* b''" by (simp add: str_defs)
  have q: "42 \<notin> set (asc ''[a](b) '') \<and> 95 \<notin> set (asc ''[a](b) '') \<and>
           42 \<notin> set (asc '' ~~c~~'') \<and> 95 \<notin> set (asc '' ~~c~~'')"
    by (simp add: asc_def)
  have m: "italic_pat None (asc ''*x* and *y*'') = Some ((Some (asc ''x* and *y''), None), 11)"
    by (simp add: str_defs clean_defs)
  have a: "clean_inline_markdown (asc ''*x*'') = Inr (asc ''*x*'') \<and>
     clean_inline_markdown (asc ''_x_'') = Inr (asc ''_x_'') \<and>
     clean_inline_markdown (asc ''a *x* b'') = Inr (asc ''a *x* b'') \<and>
     re_sub italic_pat replace_italic None (asc ''[a](b) _x_ ~~c~~'') = Inr (asc ''[a](b) _x_ ~~c~~'')"
    using n p q single_char_span_unchanged [of 120 None "[]" None None 0 42 "asc ''a ''" "asc '' b''"]
      single_char_span_unchanged [of 120 None "[]" None None 0 95 "asc ''[a](b) ''" "asc '' ~~c~~''"]
      w
    by (simp add: asc_def)
  have b: "\<exists>d content. (d = 42 \<or> d = 95) \<and> replace_italic (Some (asc ''x* and *y''), None) = Inr content \<and>
      2 \<le> length content \<and> 11 = length content + 2 \<and>
      hd content \<noteq> d \<and> \<not> isspace (hd content) \<and> last content \<noteq> d \<and> \<not> isspace (last content) \<and>
      take 11 (asc ''*x* and *y*'') = d # content @ [d]"
    using m single_char_span_unchanged [of 120 None "asc ''*x* and *y*''" "Some (asc ''x* and *y'')" None 11 42 "[]" "[]"]
    by blast
  show ?thesis using a m b by blast
qed

section \<open>The heading cut of the sanitizer\<close>

lemma join_Cons: "ls \<noteq> [] \<Longrightarrow> join sep (l # ls) = l @ sep @ join sep ls"
  by (cases ls) simp_all

lemma search_inside_line:
  "10 \<notin> set l \<Longrightarrow> heading_search False (l @ 10 # rest) = heading_search True rest"
  by (induction l) auto

lemma search_inside_last_line: "10 \<notin> set l \<Longrightarrow> heading_search False l = None"
  by (induction l) auto

lemma search_skips_line:
  assumes "10 \<notin> set l" "\<not> startswith l [35]"
  shows "heading_search True (l @ 10 # rest) = heading_search True rest"
  using assms by (cases l) (auto simp: startswith_def search_inside_line)

lemma search_skips_last_line:
  assumes "10 \<notin> set l" "\<not> startswith l [35]"
  shows "heading_search True l = None"
  using assms by (cases l) (auto simp: startswith_def search_inside_last_line)

lemma search_hit: "startswith h [35] \<Longrightarrow> heading_search True (h @ r) = Some (h @ r)"
  by (cases h) (auto simp: startswith_def)

lemma search_first_hash_line:
  assumes "\<forall>l\<in>set pre. 10 \<notin> set l \<and> \<not> startswith l [35]" "startswith h [35]"
  shows "heading_search True (join [10] (pre @ h # post)) = Some (join [10] (h # post))"
  using assms(1)
proof (induction pre)
  case Nil
  have "join [10] (h # post) = h @ (if post = [] then [] else 10 # join [10] post)"
    by (cases post) simp_all
  then show ?case using search_hit [OF assms(2)] by simp
next
  case (Cons l pre)
  have "join [10] ((l # pre) @ h # post) = l @ 10 # join [10] (pre @ h # post)"
    by (simp add: join_Cons)
  then show ?case using Cons by (simp add: search_skips_line)
qed

lemma search_no_hash_line:
  assumes "\<forall>l\<in>set ls. 10 \<notin> set l \<and> \<not> startswith l [35]"
  shows "heading_search True (join [10] ls) = None"
  using assms
proof (induction ls)
  case Nil
  then show ?case by simp
next
  case (Cons l ls)
  show ?case
  proof (cases "ls = []")
    case True
    then show ?thesis using Cons.prems by (simp add: search_skips_last_line)
  next
    case False
    then have "join [10] (l # ls) = l @ 10 # join [10] ls" by (simp add: join_Cons)
    then show ?thesis using Cons by (simp add: search_skips_line)
  qed
qed

text \<open>
  C4, as the claim states it, fails: the pattern of the code is \<^verbatim>\<open>^#+\s*.*$\<close>, where
  neither the space nor the content is required. In the text of the two lines \<open>intro\<close>
  and \<open>#tag\<close> no line is one or more \<open>#\<close> followed by a space and content, so by the
  claim the text stays as it is; the code cuts it at \<open>#tag\<close>.
\<close>

theorem sanitizer_cuts_at_hash_without_space:
  "\<not> spec_heading_line (asc ''intro'') \<and> \<not> spec_heading_line (asc ''#tag'') \<and>
   remove_ai_artifacts (join [10] [asc ''intro'', asc ''#tag'']) = asc ''#tag''"
  by (simp add: spec_heading_line_def str_defs remove_ai_artifacts_def remove_thought_def
      heading_cut_def apply_replacements_def replacements_def remove_zero_width_def Let_def)

text \<open>
  C4, amended. The sanitizer discards everything before the first line that begins
  with \<open>#\<close> (a space and content need not follow); if no line begins with \<open>#\<close>, this
  step leaves the text unchanged. The step works on the stripped text without its
  thought line, and the replacement of the look-alike punctuation, the removal of the
  zero-width characters and the final strip follow it.
\<close>

theorem sanitizer_cuts_at_first_hash_line:
  "((\<forall>l\<in>set pre. 10 \<notin> set l \<and> \<not> startswith l [35]) \<and> startswith h [35] \<longrightarrow>
      heading_cut (join [10] (pre @ h # post)) = join [10] (h # post))
   \<and> ((\<forall>l\<in>set ls. 10 \<notin> set l \<and> \<not> startswith l [35]) \<longrightarrow>
        heading_cut (join [10] ls) = join [10] ls)
   \<and> remove_ai_artifacts text0 =
       strip (remove_zero_width (apply_replacements (heading_cut (remove_thought (strip text0)))))"
  by (simp add: heading_cut_def search_first_hash_line search_no_hash_line remove_ai_artifacts_def)

theorem sanitizer_cuts_at_first_hash_line_witness:
  "heading_cut (join [10] [asc ''Sure, here it is:'', [], asc ''#Title'', asc ''# Next'']) =
     join [10] [asc ''#Title'', asc ''# Next''] \<and>
   heading_cut (join [10] [asc ''a # b'', asc '' # c'']) = join [10] [asc ''a # b'', asc '' # c'']"
proof -
  have 1: "\<forall>l\<in>set [asc ''Sure, here it is:'', []]. 10 \<notin> set l \<and> \<not> startswith l [35]"
    by (simp add: asc_def startswith_def)
  have 2: "startswith (asc ''#Title'') [35]" by (simp add: asc_def startswith_def)
  have 3: "\<forall>l\<in>set [asc ''a # b'', asc '' # c'']. 10 \<notin> set l \<and> \<not> startswith l [35]"
    by (simp add: asc_def startswith_def)
  show ?thesis
    using 1 2 3
      sanitizer_cuts_at_first_hash_line [of "[asc ''Sure, here it is:'', []]" "asc ''#Title''"
        "[asc ''# Next'']" "[asc ''a # b'', asc '' # c'']"]
    by simp
qed

section \<open>Code blocks\<close>

lemma parse_line_fence_open:
  "startswith (rstrip f) (asc ''```'') \<Longrightarrow> \<not> p_in_code_block s \<Longrightarrow>
   parse_line s f = Inr (s\<lparr>p_in_code_block := True\<rparr>)"
  by (simp add: parse_line_def)

lemma parse_line_fence_close:
  "startswith (rstrip f) (asc ''```'') \<Longrightarrow> p_in_code_block s \<Longrightarrow>
   parse_line s f = Inr (s\<lparr>structured_lines := emit_code_block s, code_block_content := [],
                            p_in_code_block := False\<rparr>)"
  by (simp add: parse_line_def)

lemma parse_line_interior:
  "\<not> startswith (rstrip l) (asc ''```'') \<Longrightarrow> p_in_code_block s \<Longrightarrow>
   parse_line s l = Inr (s\<lparr>code_block_content := code_block_content s @ [rstrip l]\<rparr>)"
  by (simp add: parse_line_def)

lemma parse_lines_interior:
  "p_in_code_block s \<Longrightarrow> \<forall>l\<in>set body. \<not> startswith (rstrip l) (asc ''```'') \<Longrightarrow>
   parse_lines s (body @ rest) =
     parse_lines (s\<lparr>code_block_content := code_block_content s @ map rstrip body\<rparr>) rest"
proof (induction body arbitrary: s)
  case Nil
  then show ?case by simp
next
  case (Cons l body)
  then show ?case by (simp add: parse_line_interior ebind_def)
qed

lemma parse_code_block:
  assumes "\<not> p_in_code_block s" "code_block_content s = []"
    "startswith (rstrip f1) (asc ''```'')" "startswith (rstrip f2) (asc ''```'')"
    "\<forall>l\<in>set body. \<not> startswith (rstrip l) (asc ''```'')"
  shows "parse_lines s (f1 # body @ f2 # rest) =
     parse_lines (s\<lparr>structured_lines := structured_lines s @
        (if body = [] then []
         else asc ''[CODE_BLOCK_START]'' # map rstrip body @ [asc ''[CODE_BLOCK_END]''])\<rparr>) rest"
proof -
  let ?s1 = "s\<lparr>p_in_code_block := True\<rparr>"
  let ?s2 = "?s1\<lparr>code_block_content := code_block_content ?s1 @ map rstrip body\<rparr>"
  have "parse_lines s (f1 # body @ f2 # rest) = parse_lines ?s1 (body @ f2 # rest)"
    using assms(1,3) by (simp add: parse_line_fence_open ebind_def)
  also have "\<dots> = parse_lines ?s2 (f2 # rest)"
    using assms(5) by (simp add: parse_lines_interior)
  also have "\<dots> = parse_lines (?s2\<lparr>structured_lines := emit_code_block ?s2, code_block_content := [],
                            p_in_code_block := False\<rparr>) rest"
    using assms(4) by (simp add: parse_line_fence_close ebind_def)
  also have "?s2\<lparr>structured_lines := emit_code_block ?s2, code_block_content := [],
                  p_in_code_block := False\<rparr> =
     s\<lparr>structured_lines := structured_lines s @
        (if body = [] then []
         else asc ''[CODE_BLOCK_START]'' # map rstrip body @ [asc ''[CODE_BLOCK_END]''])\<rparr>"
    using assms(1,2) by (cases s) (simp add: emit_code_block_def)
  finally show ?thesis .
qed

lemma html_code_block:
  assumes "\<forall>l\<in>set code. l \<noteq> asc ''[CODE_BLOCK_START]'' \<and> l \<noteq> asc ''[CODE_BLOCK_END]''" "code \<noteq> []"
  shows "foldl html_step s (asc ''[CODE_BLOCK_START]'' # code @ [asc ''[CODE_BLOCK_END]'']) =
     s\<lparr>html_lines := html_lines s @
          [asc ''<pre><code>'' @ html_escape (join [10] code) @ asc ''</code></pre>''],
        in_code_block := False, code_lines := []\<rparr>"
  using assms
  by (simp add: html_step_code_start html_code_lines html_step_code_end emit_def code_html_def)

lemma docx_code_block:
  assumes "\<forall>l\<in>set code. l \<noteq> asc ''[CODE_BLOCK_START]'' \<and> l \<noteq> asc ''[CODE_BLOCK_END]''" "code \<noteq> []"
  shows "foldl docx_step s (asc ''[CODE_BLOCK_START]'' # code @ [asc ''[CODE_BLOCK_END]'']) =
     s\<lparr>doc := doc s @ [DCodeBlock (join [10] code)], d_in_code_block := False, d_code_lines := []\<rparr>"
  using assms
  by (simp add: docx_step_code_start docx_code_lines docx_step_code_end add_code_block_to_docx_def)

text \<open>
  C3, as the claim states it, fails: the parser strips every line on the right before
  it looks at it, the lines inside a fence as well, so an interior line that ends in
  white space is not carried verbatim.
\<close>

theorem code_line_loses_trailing_space:
  "parse_markdown_structure (join [10] [asc ''```'', asc ''x = 1  '', asc ''```'']) =
     Inr (join [10] [asc ''[CODE_BLOCK_START]'', asc ''x = 1'', asc ''[CODE_BLOCK_END]''])"
  by (simp add: str_defs parse_defs ebind_def)

text \<open>
  C3, amended. For every code block (an opening fence, interior lines none of which
  starts with the fence marker, a closing fence, met outside a code block) the parser
  carries each interior line with only its trailing white space removed, in order,
  between the two marker lines; the Inline Cleaner and escaping play no part, whatever
  the lines look like, and a block without interior lines leaves nothing. Given the
  marker lines around code lines none of which is itself one of the two marker lines,
  the Page Renderer emits one element, the lines joined by newlines and escaped for
  HTML, and the Document Renderer one code element of the joined lines, not escaped.
\<close>

theorem code_block_carried_unmodified:
  "(\<not> p_in_code_block s \<and> code_block_content s = [] \<and>
    startswith (rstrip f1) (asc ''```'') \<and> startswith (rstrip f2) (asc ''```'') \<and>
    (\<forall>l\<in>set body. \<not> startswith (rstrip l) (asc ''```'')) \<longrightarrow>
      parse_lines s (f1 # body @ f2 # rest) =
        parse_lines (s\<lparr>structured_lines := structured_lines s @
           (if body = [] then []
            else asc ''[CODE_BLOCK_START]'' # map rstrip body @ [asc ''[CODE_BLOCK_END]''])\<rparr>) rest)
   \<and> ((\<forall>l\<in>set code. l \<noteq> asc ''[CODE_BLOCK_START]'' \<and> l \<noteq> asc ''[CODE_BLOCK_END]'') \<and> code \<noteq> [] \<longrightarrow>
        foldl html_step h (asc ''[CODE_BLOCK_START]'' # code @ [asc ''[CODE_BLOCK_END]'']) =
          h\<lparr>html_lines := html_lines h @
               [asc ''<pre><code>'' @ html_escape (join [10] code) @ asc ''</code></pre>''],
             in_code_block := False, code_lines := []\<rparr> \<and>
        foldl docx_step d (asc ''[CODE_BLOCK_START]'' # code @ [asc ''[CODE_BLOCK_END]'']) =
          d\<lparr>doc := doc d @ [DCodeBlock (join [10] code)], d_in_code_block := False,
             d_code_lines := []\<rparr>)"
  using parse_code_block [of s f1 f2 body rest] html_code_block [of code h]
    docx_code_block [of code d]
  by blast

theorem code_block_carried_unmodified_witness:
  "parse_lines parse_init [asc ''```python'', asc ''# no heading'', asc ''- **x**  '', asc ''```''] =
     Inr (parse_init\<lparr>structured_lines :=
       [asc ''[CODE_BLOCK_START]'', asc ''# no heading'', asc ''- **x**'', asc ''[CODE_BLOCK_END]'']\<rparr>) \<and>
   html_lines (foldl html_step html_init
     [asc ''[CODE_BLOCK_START]'', asc ''# no heading'', asc ''- **x** <b>'', asc ''[CODE_BLOCK_END]'']) =
     [asc ''<pre><code># no heading'' @ [10] @ asc ''- **x** &lt;b&gt;</code></pre>''] \<and>
   doc (foldl docx_step (docx_init [])
     [asc ''[CODE_BLOCK_START]'', asc ''# no heading'', asc ''- **x** <b>'', asc ''[CODE_BLOCK_END]'']) =
     [DCodeBlock (asc ''# no heading'' @ [10] @ asc ''- **x** <b>'')]"
proof -
  have a: "\<not> p_in_code_block parse_init \<and> code_block_content parse_init = [] \<and>
    startswith (rstrip (asc ''```python'')) (asc ''```'') \<and> startswith (rstrip (asc ''```'')) (asc ''```'') \<and>
    (\<forall>l\<in>set [asc ''# no heading'', asc ''- **x**  '']. \<not> startswith (rstrip l) (asc ''```''))"
    by (simp add: parse_init_def str_defs)
  have b: "(\<forall>l\<in>set [asc ''# no heading'', asc ''- **x** <b>''].
              l \<noteq> asc ''[CODE_BLOCK_START]'' \<and> l \<noteq> asc ''[CODE_BLOCK_END]'') \<and>
           [asc ''# no heading'', asc ''- **x** <b>''] \<noteq> []"
    by (simp add: asc_def)
  have r: "map rstrip [asc ''# no heading'', asc ''- **x**  ''] = [asc ''# no heading'', asc ''- **x**'']"
    by (simp add: str_defs)
  have e: "html_escape (join [10] [asc ''# no heading'', asc ''- **x** <b>'']) =
           asc ''# no heading'' @ [10] @ asc ''- **x** &lt;b&gt;''"
    by (simp add: str_defs)
  note t = code_block_carried_unmodified [of parse_init "asc ''```python''" "asc ''```''"
      "[asc ''# no heading'', asc ''- **x**  '']" "[]" "[asc ''# no heading'', asc ''- **x** <b>'']"
      html_init "docx_init []"]
  have 1: "parse_lines parse_init [asc ''```python'', asc ''# no heading'', asc ''- **x**  '', asc ''```''] =
     Inr (parse_init\<lparr>structured_lines :=
       [asc ''[CODE_BLOCK_START]'', asc ''# no heading'', asc ''- **x**'', asc ''[CODE_BLOCK_END]'']\<rparr>)"
    using t a unfolding r by (simp add: parse_init_def)
  have 2: "foldl html_step html_init
     [asc ''[CODE_BLOCK_START]'', asc ''# no heading'', asc ''- **x** <b>'', asc ''[CODE_BLOCK_END]''] =
     html_init\<lparr>html_lines := html_lines html_init @
          [asc ''<pre><code>'' @ html_escape (join [10] [asc ''# no heading'', asc ''- **x** <b>'']) @
           asc ''</code></pre>''],
        in_code_block := False, code_lines := []\<rparr>"
    using t b by simp
  have 3: "foldl docx_step (docx_init [])
     [asc ''[CODE_BLOCK_START]'', asc ''# no heading'', asc ''- **x** <b>'', asc ''[CODE_BLOCK_END]''] =
     (docx_init [])\<lparr>doc := doc (docx_init []) @ [DCodeBlock (join [10] [asc ''# no heading'', asc ''- **x** <b>''])],
        d_in_code_block := False, d_code_lines := []\<rparr>"
    using t b by simp
  show ?thesis unfolding 1 2 3 e by (simp add: html_init_def docx_init_def asc_def)
qed

section \<open>Cleaning a clean text\<close>

text \<open>The last step of the cleaner returns a text in normal form.\<close>

lemma ws_norm_Cons:
  "ws_norm (a # w) \<longleftrightarrow> (isspace a \<longrightarrow> a = 32 \<and> (w = [] \<or> \<not> isspace (hd w))) \<and> ws_norm w"
  by (cases w) auto

lemma collapse_ws_hd:
  "t = [] \<or> \<not> isspace (hd t) \<Longrightarrow> collapse_ws t = [] \<or> \<not> isspace (hd (collapse_ws t))"
  by (cases t) auto

lemma dropWhile_hd: "dropWhile P t = [] \<or> \<not> P (hd (dropWhile P t))"
  using hd_dropWhile by blast

lemma ws_norm_collapse_ws: "ws_norm (collapse_ws z)"
proof (induction z rule: collapse_ws.induct)
  case 1
  then show ?case by simp
next
  case (2 c cs)
  show ?case
  proof (cases "isspace c")
    case True
    then have "ws_norm (collapse_ws (dropWhile isspace cs))" using 2 by simp
    moreover have "collapse_ws (dropWhile isspace cs) = [] \<or>
        \<not> isspace (hd (collapse_ws (dropWhile isspace cs)))"
      by (rule collapse_ws_hd) (rule dropWhile_hd)
    ultimately show ?thesis using True by (simp add: ws_norm_Cons)
  next
    case False
    then show ?thesis using 2 by (simp add: ws_norm_Cons)
  qed
qed

lemma collapse_ws_norm: "ws_norm w \<Longrightarrow> collapse_ws w = w"
proof (induction w)
  case Nil
  then show ?case by simp
next
  case (Cons a w)
  then have n: "ws_norm w" and h: "isspace a \<longrightarrow> a = 32 \<and> (w = [] \<or> \<not> isspace (hd w))"
    by (simp_all add: ws_norm_Cons)
  show ?case
  proof (cases "isspace a")
    case True
    then have "dropWhile isspace w = w" using h by (cases w) auto
    then show ?thesis using True h Cons.IH [OF n] by simp
  next
    case False
    then show ?thesis using Cons.IH [OF n] by simp
  qed
qed

lemma ws_norm_dropWhile: "ws_norm w \<Longrightarrow> ws_norm (dropWhile isspace w)"
  by (induction w) (auto simp: ws_norm_Cons)

lemma ws_norm_prefix: "ws_norm (u @ v) \<Longrightarrow> ws_norm u"
proof (induction u)
  case Nil
  then show ?case by simp
next
  case (Cons a u)
  then show ?case by (cases u) (auto simp: ws_norm_Cons)
qed

lemma ws_norm_strip: "ws_norm w \<Longrightarrow> ws_norm (strip w)"
proof -
  assume w: "ws_norm w"
  obtain tr where "w = rstrip w @ tr" using rstrip_prefix by blast
  then have "ws_norm (rstrip w)" using w ws_norm_prefix by metis
  then show ?thesis by (simp add: strip_def lstrip_def ws_norm_dropWhile)
qed

lemma strip_ends: "strip w = [] \<or> (\<not> isspace (hd (strip w)) \<and> \<not> isspace (last (strip w)))"
proof (cases "strip w = []")
  case True
  then show ?thesis by simp
next
  case False
  let ?r = "rstrip w"
  have s: "strip w = dropWhile isspace ?r" by (simp add: strip_def lstrip_def)
  have h: "\<not> isspace (hd (strip w))" using False s hd_dropWhile by metis
  have "?r = takeWhile isspace ?r @ strip w" using s by simp
  then have l: "last (strip w) = last ?r" using False by (metis last_appendR)
  have rn: "?r \<noteq> []" using False s by auto
  then have dn: "dropWhile isspace (rev w) \<noteq> []" by (simp add: rstrip_def)
  have "last ?r = hd (dropWhile isspace (rev w))"
    using dn by (simp add: rstrip_def last_rev)
  then have "\<not> isspace (last ?r)" using dn hd_dropWhile by metis
  then show ?thesis using h l by simp
qed

lemma strip_fixed:
  assumes "y = [] \<or> (\<not> isspace (hd y) \<and> \<not> isspace (last y))"
  shows "strip y = y"
proof (cases "y = []")
  case True
  then show ?thesis by (simp add: strip_def lstrip_def rstrip_def)
next
  case False
  then have h: "\<not> isspace (hd y)" and l: "\<not> isspace (last y)" using assms by auto
  obtain a r where ar: "rev y = a # r" using False by (cases "rev y") auto
  have "hd (rev y) = last y" using False by (simp add: hd_rev)
  then have "\<not> isspace a" using l ar by simp
  then have "dropWhile isspace (rev y) = rev y" unfolding ar by simp
  then have "rstrip y = y" by (simp add: rstrip_def)
  moreover have "dropWhile isspace y = y" using False h by (cases y) auto
  ultimately show ?thesis by (simp add: strip_def lstrip_def)
qed

lemma clean_result_form:
  "clean_inline_markdown x = Inr y \<Longrightarrow> \<exists>z. y = strip (collapse_ws z)"
  by (auto simp: clean_inline_markdown_def ebind_def split: sum.splits)

lemma clean_result_fixed:
  assumes "clean_inline_markdown x = Inr y"
  shows "strip (collapse_ws y) = y"
proof -
  obtain z where z: "y = strip (collapse_ws z)" using clean_result_form [OF assms] by blast
  have "ws_norm y" unfolding z by (rule ws_norm_strip) (rule ws_norm_collapse_ws)
  then have "collapse_ws y = y" by (rule collapse_ws_norm)
  moreover have "strip y = y" unfolding z by (rule strip_fixed) (rule strip_ends)
  ultimately show ?thesis by simp
qed

text \<open>
  C5. When one pass of the Inline Cleaner returns a text without markdown
  delimiters, a second pass returns the same text.
\<close>

theorem clean_inline_idempotent:
  assumes "clean_inline_markdown x = Inr y" "\<forall>c\<in>set y. \<not> md_delim c"
  shows "clean_inline_markdown y = Inr y"
proof -
  have d: "\<And>c. c \<in> set y \<Longrightarrow> c \<noteq> 42 \<and> c \<noteq> 95 \<and> c \<noteq> 126 \<and> c \<noteq> 96 \<and> c \<noteq> 91 \<and> c \<noteq> 60 \<and> c \<noteq> 62"
    using assms(2) by (auto simp: md_delim_def)
  have b: "re_sub bold_pat replace_bold None y = Inr y"
    by (rule re_sub_no_match) (simp add: d bold_pat_needs)
  have i: "re_sub italic_pat replace_italic None y = Inr y"
    by (rule re_sub_no_match) (simp add: d italic_pat_needs)
  have s: "re_sub strike_pat replace_strike None y = Inr y"
    by (rule re_sub_no_match) (simp add: d strike_pat_needs)
  have c: "re_sub code_pat replace_code None y = Inr y"
    by (rule re_sub_no_match) (simp add: d code_pat_needs)
  have l: "re_sub link_pat replace_links None y = Inr y"
    by (rule re_sub_no_match) (simp add: d link_pat_needs)
  have f: "filter (\<lambda>c. c \<noteq> 60 \<and> c \<noteq> 62) y = y" using d by (simp add: filter_id_conv)
  have u1: "unescape 42 y = y" using d by (intro unescape_no_delim) auto
  have u2: "unescape 95 y = y" using d by (intro unescape_no_delim) auto
  have w: "strip (collapse_ws y) = y" using assms(1) by (rule clean_result_fixed)
  show ?thesis unfolding clean_inline_markdown_def
    by (simp only: b i s c l f u1 u2 w ebind_def sum.case)
qed

theorem clean_inline_idempotent_witness:
  "clean_inline_markdown (asc ''**bold**  and *italic* [t](u) '') = Inr (asc ''bold and italic t (u)'') \<and>
   list_all (\<lambda>c. \<not> md_delim c) (asc ''bold and italic t (u)'') \<and>
   clean_inline_markdown (asc ''bold and italic t (u)'') = Inr (asc ''bold and italic t (u)'')"
proof -
  have a: "clean_inline_markdown (asc ''**bold**  and *italic* [t](u) '') = Inr (asc ''bold and italic t (u)'')"
    by (simp add: str_defs clean_defs)
  have b: "\<forall>c\<in>set (asc ''bold and italic t (u)''). \<not> md_delim c"
    by (simp add: asc_def md_delim_def)
  show ?thesis using a b clean_inline_idempotent [OF a b] by (simp add: list_all_iff)
qed

end
